theory Spec2Isabelle
  imports Main "HOL-Library.Word"
begin

unbundle bit_operations_syntax

section \<open>JavaScript values that the code throws and catches\<close>

text \<open>
  A \<open>throw\<close> can carry any value. The code tests \<open>error instanceof Error\<close>, so a thrown
  value is either an \<open>Error\<close> object (with its message) or some other value, of which
  the primitive ones \<open>undefined\<close>, \<open>null\<close>, booleans and strings are modelled. Thrown
  numbers, symbols and objects that are not an \<open>Error\<close> are outside the model, and with
  them a thrown object whose conversion by \<open>String\<close> itself throws.
\<close>

datatype js_value = JsUndefined | JsNull | JsBoolean bool | JsString string

datatype js_error = Error string

datatype thrown = ThrownError js_error | ThrownValue js_value

text \<open>\<open>String(v)\<close> on a primitive value.\<close>

fun js_String :: "js_value \<Rightarrow> string" where
  "js_String JsUndefined = ''undefined''"
| "js_String JsNull = ''null''"
| "js_String (JsBoolean b) = (if b then ''true'' else ''false'')"
| "js_String (JsString s) = s"

text \<open>\<open>error instanceof Error ? error : new Error(String(error))\<close>\<close>

fun toError :: "thrown \<Rightarrow> js_error" where
  "toError (ThrownError e) = e"
| "toError (ThrownValue v) = Error (js_String v)"

text \<open>What an observer sees of a stream: values, an error, or completion.\<close>

datatype 'a notification = Next 'a | ErrorN thrown | Complete

type_synonym ContractAddress = string

section \<open>Strings and JSON\<close>

text \<open>
  A JavaScript string is a sequence of UTF-16 code units. \<open>js\<close> turns an ASCII literal
  into one.
\<close>

type_synonym js_string = "16 word list"

definition js :: "string \<Rightarrow> js_string" where
  "js s = map of_char s"

text \<open>
  A JSON value. A number is kept as its literal text: the model does not say which
  literals denote the same number. An object lists its properties in creation order.
\<close>

datatype json =
    JNull
  | JBool bool
  | JNumber js_string
  | JString js_string
  | JArray "json list"
  | JObject "(js_string \<times> json) list"

subsection \<open>JSON.stringify\<close>

definition hex_digit :: "nat \<Rightarrow> 16 word" where
  "hex_digit n = (if n < 10 then 0x30 + of_nat n else 0x57 + of_nat n)"

definition hex4 :: "16 word \<Rightarrow> js_string" where
  "hex4 c =
     [hex_digit (unat c div 4096 mod 16), hex_digit (unat c div 256 mod 16),
      hex_digit (unat c div 16 mod 16), hex_digit (unat c mod 16)]"

definition unicode_escape :: "16 word \<Rightarrow> js_string" where
  "unicode_escape c = [0x5C, 0x75] @ hex4 c"

definition is_high_surrogate :: "16 word \<Rightarrow> bool" where
  "is_high_surrogate c = (0xD800 \<le> c \<and> c \<le> 0xDBFF)"

definition is_low_surrogate :: "16 word \<Rightarrow> bool" where
  "is_low_surrogate c = (0xDC00 \<le> c \<and> c \<le> 0xDFFF)"

text \<open>
  \<open>QuoteJSONString\<close> without the enclosing quotes: the short escapes, \<open>\uXXXX\<close> for
  the other control characters and for a surrogate that has no partner, everything else
  as it is.
\<close>

fun quote_chars :: "js_string \<Rightarrow> js_string" where
  "quote_chars [] = []"
| "quote_chars (c # cs) =
     (if c = 0x08 then [0x5C, 0x62] @ quote_chars cs
      else if c = 0x09 then [0x5C, 0x74] @ quote_chars cs
      else if c = 0x0A then [0x5C, 0x6E] @ quote_chars cs
      else if c = 0x0C then [0x5C, 0x66] @ quote_chars cs
      else if c = 0x0D then [0x5C, 0x72] @ quote_chars cs
      else if c = 0x22 then [0x5C, 0x22] @ quote_chars cs
      else if c = 0x5C then [0x5C, 0x5C] @ quote_chars cs
      else if c < 0x20 then unicode_escape c @ quote_chars cs
      else if is_high_surrogate c then
        (case cs of
           [] \<Rightarrow> unicode_escape c
         | d # ds \<Rightarrow>
             if is_low_surrogate d then c # d # quote_chars ds
             else unicode_escape c @ quote_chars cs)
      else if is_low_surrogate c then unicode_escape c @ quote_chars cs
      else c # quote_chars cs)"

definition QuoteJSONString :: "js_string \<Rightarrow> js_string" where
  "QuoteJSONString s = [0x22] @ quote_chars s @ [0x22]"

fun join :: "js_string \<Rightarrow> js_string list \<Rightarrow> js_string" where
  "join sep [] = []"
| "join sep [x] = x"
| "join sep (x # y # ys) = x @ sep @ join sep (y # ys)"

text \<open>\<open>JSON.stringify(value)\<close> with no replacer and no indentation.\<close>

fun JSON_stringify :: "json \<Rightarrow> js_string" where
  "JSON_stringify JNull = js ''null''"
| "JSON_stringify (JBool b) = (if b then js ''true'' else js ''false'')"
| "JSON_stringify (JNumber literal) = literal"
| "JSON_stringify (JString s) = QuoteJSONString s"
| "JSON_stringify (JArray vs) = [0x5B] @ join [0x2C] (map JSON_stringify vs) @ [0x5D]"
| "JSON_stringify (JObject ms) =
     [0x7B] @ join [0x2C] (map (\<lambda>(k, v). QuoteJSONString k @ [0x3A] @ JSON_stringify v) ms) @ [0x7D]"

subsection \<open>JSON.parse\<close>

definition is_ws :: "16 word \<Rightarrow> bool" where
  "is_ws c = (c = 0x20 \<or> c = 0x09 \<or> c = 0x0A \<or> c = 0x0D)"

fun skip_ws :: "js_string \<Rightarrow> js_string" where
  "skip_ws [] = []"
| "skip_ws (c # cs) = (if is_ws c then skip_ws cs else c # cs)"

definition hex_value :: "16 word \<Rightarrow> nat option" where
  "hex_value c =
     (if 0x30 \<le> c \<and> c \<le> 0x39 then Some (unat c - 48)
      else if 0x41 \<le> c \<and> c \<le> 0x46 then Some (unat c - 55)
      else if 0x61 \<le> c \<and> c \<le> 0x66 then Some (unat c - 87)
      else None)"

text \<open>The character that a one-letter escape stands for.\<close>

definition unescape :: "16 word \<Rightarrow> 16 word option" where
  "unescape e =
     (if e = 0x22 then Some 0x22
      else if e = 0x5C then Some 0x5C
      else if e = 0x2F then Some 0x2F
      else if e = 0x62 then Some 0x08
      else if e = 0x66 then Some 0x0C
      else if e = 0x6E then Some 0x0A
      else if e = 0x72 then Some 0x0D
      else if e = 0x74 then Some 0x09
      else None)"

text \<open>
  The characters of a string literal after the opening quote, up to the closing quote:
  the string read (added to \<open>acc\<close>) and the rest of the text. A control character and a
  malformed escape are syntax errors.
\<close>

fun string_chars :: "js_string \<Rightarrow> js_string \<Rightarrow> (js_string \<times> js_string) option" where
  "string_chars [] acc = None"
| "string_chars (c # cs) acc =
     (if c = 0x22 then Some (acc, cs)
      else if c = 0x5C then
        (case cs of
           [] \<Rightarrow> None
         | e # cs' \<Rightarrow>
             if e = 0x75 then
               (case cs' of
                  h1 # h2 # h3 # h4 # cs'' \<Rightarrow>
                    (case (hex_value h1, hex_value h2, hex_value h3, hex_value h4) of
                       (Some d1, Some d2, Some d3, Some d4) \<Rightarrow>
                         string_chars cs'' (acc @ [of_nat (((d1 * 16 + d2) * 16 + d3) * 16 + d4)])
                     | _ \<Rightarrow> None)
                | _ \<Rightarrow> None)
             else (case unescape e of
                     Some u \<Rightarrow> string_chars cs' (acc @ [u])
                   | None \<Rightarrow> None))
      else if c < 0x20 then None
      else string_chars cs (acc @ [c]))"

definition is_digit :: "16 word \<Rightarrow> bool" where
  "is_digit c = (0x30 \<le> c \<and> c \<le> 0x39)"

text \<open>One or more digits: the digits and the rest.\<close>

definition digits1 :: "js_string \<Rightarrow> (js_string \<times> js_string) option" where
  "digits1 s = (if takeWhile is_digit s = [] then None else Some (takeWhile is_digit s, dropWhile is_digit s))"

text \<open>A number literal: \<open>-? (0 | [1-9][0-9]*) (. [0-9]+)? ([eE] [+-]? [0-9]+)?\<close>.\<close>

definition number_int :: "js_string \<Rightarrow> (js_string \<times> js_string) option" where
  "number_int s =
     (case s of
        [] \<Rightarrow> None
      | d # r \<Rightarrow>
          if d = 0x30 then Some ([d], r)
          else if is_digit d then Some (d # takeWhile is_digit r, dropWhile is_digit r)
          else None)"

definition number_frac :: "js_string \<Rightarrow> (js_string \<times> js_string) option" where
  "number_frac s =
     (case s of
        [] \<Rightarrow> Some ([], s)
      | d # r \<Rightarrow>
          if d = 0x2E then map_option (\<lambda>(ds, r'). (d # ds, r')) (digits1 r)
          else Some ([], s))"

definition number_exp :: "js_string \<Rightarrow> (js_string \<times> js_string) option" where
  "number_exp s =
     (case s of
        [] \<Rightarrow> Some ([], s)
      | e # r \<Rightarrow>
          if e = 0x65 \<or> e = 0x45 then
            (case r of
               [] \<Rightarrow> None
             | sg # r' \<Rightarrow>
                 if sg = 0x2B \<or> sg = 0x2D
                 then map_option (\<lambda>(ds, r''). (e # sg # ds, r'')) (digits1 r')
                 else map_option (\<lambda>(ds, r''). (e # ds, r'')) (digits1 r))
          else Some ([], s))"

definition parse_number :: "js_string \<Rightarrow> (js_string \<times> js_string) option" where
  "parse_number s =
     (let (sign, r0) = (case s of [] \<Rightarrow> ([], s) | c # r \<Rightarrow> if c = 0x2D then ([c], r) else ([], s)) in
      case number_int r0 of
        None \<Rightarrow> None
      | Some (i, r1) \<Rightarrow>
          (case number_frac r1 of
             None \<Rightarrow> None
           | Some (f, r2) \<Rightarrow>
               (case number_exp r2 of
                  None \<Rightarrow> None
                | Some (e, r3) \<Rightarrow> Some (sign @ i @ f @ e, r3))))"

text \<open>The rest of the text after the literal \<open>p\<close>, when the text starts with it.\<close>

fun after_literal :: "js_string \<Rightarrow> js_string \<Rightarrow> js_string option" where
  "after_literal [] s = Some s"
| "after_literal (p # ps) [] = None"
| "after_literal (p # ps) (c # cs) = (if p = c then after_literal ps cs else None)"

text \<open>
  Defining a property of an object: a key that is there already keeps its place and gets
  the new value, a new key goes to the end. (The order in which JavaScript lists keys that
  look like array indices is not modelled.)
\<close>

fun define_property :: "(js_string \<times> json) list \<Rightarrow> js_string \<Rightarrow> json \<Rightarrow> (js_string \<times> json) list" where
  "define_property [] k v = [(k, v)]"
| "define_property ((k', v') # ms) k v =
     (if k' = k then (k, v) # ms else (k', v') # define_property ms k v)"

text \<open>
  The recursive descent over values, array elements and object members. The first
  argument bounds the number of nested calls; \<open>JSON_parse\<close> starts with more than
  twice the length of the text, which is enough for every text (lemma
  \<open>JSON_parse_Inr_iff\<close>).
  The result is the value read and the rest of the text; \<open>None\<close> is a syntax error.
\<close>

fun parse_value :: "nat \<Rightarrow> js_string \<Rightarrow> (json \<times> js_string) option"
  and parse_elements :: "nat \<Rightarrow> js_string \<Rightarrow> json list \<Rightarrow> (json list \<times> js_string) option"
  and parse_members ::
    "nat \<Rightarrow> js_string \<Rightarrow> (js_string \<times> json) list \<Rightarrow> ((js_string \<times> json) list \<times> js_string) option"
where
  "parse_value 0 s = None"
| "parse_value (Suc n) s =
     (case skip_ws s of
        [] \<Rightarrow> None
      | c # cs \<Rightarrow>
          if c = 0x7B then
            (case skip_ws cs of
               [] \<Rightarrow> None
             | c' # cs' \<Rightarrow>
                 if c' = 0x7D then Some (JObject [], cs')
                 else map_option (\<lambda>(ms, r). (JObject ms, r)) (parse_members n (c' # cs') []))
          else if c = 0x5B then
            (case skip_ws cs of
               [] \<Rightarrow> None
             | c' # cs' \<Rightarrow>
                 if c' = 0x5D then Some (JArray [], cs')
                 else map_option (\<lambda>(vs, r). (JArray vs, r)) (parse_elements n (c' # cs') []))
          else if c = 0x22 then map_option (\<lambda>(str, r). (JString str, r)) (string_chars cs [])
          else if c = 0x74 then map_option (\<lambda>r. (JBool True, r)) (after_literal (js ''rue'') cs)
          else if c = 0x66 then map_option (\<lambda>r. (JBool False, r)) (after_literal (js ''alse'') cs)
          else if c = 0x6E then map_option (\<lambda>r. (JNull, r)) (after_literal (js ''ull'') cs)
          else map_option (\<lambda>(literal, r). (JNumber literal, r)) (parse_number (c # cs)))"
| "parse_elements 0 s acc = None"
| "parse_elements (Suc n) s acc =
     (case parse_value n s of
        None \<Rightarrow> None
      | Some (v, r) \<Rightarrow>
          (case skip_ws r of
             [] \<Rightarrow> None
           | c # r' \<Rightarrow>
               if c = 0x2C then parse_elements n r' (acc @ [v])
               else if c = 0x5D then Some (acc @ [v], r')
               else None))"
| "parse_members 0 s acc = None"
| "parse_members (Suc n) s acc =
     (case skip_ws s of
        [] \<Rightarrow> None
      | c # cs \<Rightarrow>
          if c = 0x22 then
            (case string_chars cs [] of
               None \<Rightarrow> None
             | Some (key, r) \<Rightarrow>
                 (case skip_ws r of
                    [] \<Rightarrow> None
                  | c2 # r2 \<Rightarrow>
                      if c2 = 0x3A then
                        (case parse_value n r2 of
                           None \<Rightarrow> None
                         | Some (v, r3) \<Rightarrow>
                             (case skip_ws r3 of
                                [] \<Rightarrow> None
                              | c3 # r4 \<Rightarrow>
                                  if c3 = 0x2C then parse_members n r4 (define_property acc key v)
                                  else if c3 = 0x7D then Some (define_property acc key v, r4)
                                  else None))
                      else None))
          else None)"

definition SyntaxError :: thrown where
  "SyntaxError = ThrownError (Error ''SyntaxError'')"

text \<open>
  \<open>JSON.parse(text)\<close>: one value with white space around it and nothing else; a
  \<open>SyntaxError\<close> otherwise.
\<close>

definition JSON_parse :: "js_string \<Rightarrow> thrown + json" where
  "JSON_parse text =
     (case parse_value (Suc (2 * length text)) text of
        None \<Rightarrow> Inl SyntaxError
      | Some (v, r) \<Rightarrow> if skip_ws r = [] then Inr v else Inl SyntaxError)"

section \<open>InvoiceAPI\<close>

subsection \<open>The data\<close>

type_synonym bytes = "8 word list"

text \<open>\<open>toHex\<close> of midnight-js-utils: two lower-case hexadecimal digits for each byte.\<close>

definition hex_char :: "nat \<Rightarrow> char" where
  "hex_char n = (if n < 10 then char_of (48 + n) else char_of (87 + n))"

definition toHex :: "bytes \<Rightarrow> string" where
  "toHex bs = concat (map (\<lambda>b. [hex_char (unat b div 16), hex_char (unat b mod 16)]) bs)"

text \<open>The ledger of the contract, as \<open>ledger(contractState.data)\<close> gives it.\<close>

datatype State = EMPTY | ISSUED | PAID

record Maybe_string =
  is_some :: bool
  "value" :: js_string

record Ledger =
  state :: State
  sequence :: int
  amount :: int
  buyerPk :: bytes
  invoiceJson :: Maybe_string

record InvoicePrivateState =
  secretKey :: bytes

definition invoicePrivateStateKey :: string where
  "invoicePrivateStateKey = ''invoicePrivateState''"

text \<open>
  What the adapter calls outside this repository: the pure circuit \<open>buyerKey\<close> of the
  compiled contract and \<open>convert_bigint_to_Uint8Array\<close> of the Compact runtime. Both may
  throw.
\<close>

record collaborators =
  buyerKey :: "bytes \<Rightarrow> bytes \<Rightarrow> thrown + bytes"
  convert_bigint_to_Uint8Array :: "nat \<Rightarrow> int \<Rightarrow> thrown + bytes"

record InvoiceData =
  title :: js_string
  description :: js_string
  issuedAt :: js_string
  currency :: js_string

text \<open>The JavaScript object of an \<open>InvoiceData\<close>, its properties in the order the UI creates them.\<close>

definition InvoiceData_object :: "InvoiceData \<Rightarrow> json" where
  "InvoiceData_object d =
     JObject [(js ''title'', JString (title d)), (js ''description'', JString (description d)),
              (js ''issuedAt'', JString (issuedAt d)), (js ''currency'', JString (currency d))]"

text \<open>
  A value has the expected invoice structure when it is an object with the four string
  properties.
\<close>

definition is_InvoiceData :: "json \<Rightarrow> bool" where
  "is_InvoiceData v =
     (case v of
        JObject ms \<Rightarrow>
          list_all (\<lambda>k. case map_of ms (js k) of Some (JString s) \<Rightarrow> True | _ \<Rightarrow> False)
            [''title'', ''description'', ''issuedAt'', ''currency'']
      | _ \<Rightarrow> False)"

datatype entry_type = Issue | Payment | Reset

record TransactionHistoryEntry =
  type :: entry_type
  txHash :: string
  blockHeight :: nat
  timestamp :: int
  amount :: "int option"
  invoiceData :: "InvoiceData option"

text \<open>
  The derived state. \<open>invoiceData\<close> is whatever \<open>JSON.parse\<close> returned (the cast
  \<open>as InvoiceData\<close> checks nothing), or \<open>undefined\<close> (\<open>None\<close>).
\<close>

record InvoiceDerivedState =
  state :: State
  sequence :: int
  amount :: int
  invoiceData :: "json option"
  canPay :: bool
  transactionHistory :: "TransactionHistoryEntry list"

text \<open>
  The logger receives entries; the adapter may have none (\<open>logger?: Logger\<close>), and
  \<open>logger?.error(...)\<close> then does nothing.
\<close>

datatype log_entry = Trace string | Info string | ErrorLog string thrown

definition log :: "log_entry \<Rightarrow> log_entry list option \<Rightarrow> log_entry list option" where
  "log e maybeLogger = map_option (\<lambda>entries. entries @ [e]) maybeLogger"

text \<open>
  The adapter object: its address, its history, its logger, and the promise that
  \<open>providers.privateStateProvider.get(invoicePrivateStateKey)\<close> returned when the
  constructor ran, given by the value it holds (\<open>None\<close> is \<open>null\<close>: nothing stored).
\<close>

record InvoiceAPI =
  deployedContractAddress :: ContractAddress
  transactionHistory :: "TransactionHistoryEntry list"
  logger :: "log_entry list option"
  privateStateLookup :: "InvoicePrivateState option"

definition new_InvoiceAPI ::
  "ContractAddress \<Rightarrow> (string \<rightharpoonup> InvoicePrivateState) \<Rightarrow> log_entry list option \<Rightarrow> InvoiceAPI" where
  "new_InvoiceAPI contractAddress privateStateProvider maybeLogger =
     \<lparr>deployedContractAddress = contractAddress, transactionHistory = [], logger = maybeLogger,
      privateStateLookup = privateStateProvider invoicePrivateStateKey\<rparr>"

subsection \<open>The projection of \<open>state$\<close>\<close>

text \<open>
  The function that \<open>combineLatest\<close> applies to the latest ledger state and the private
  state. Reading \<open>privateState.secretKey\<close> of \<open>null\<close> throws a \<open>TypeError\<close>; a failing
  \<open>JSON.parse\<close> is caught and logged. The result is the derived state or the value thrown,
  and the adapter with what was logged.
\<close>

definition TypeError :: thrown where
  "TypeError = ThrownError (Error ''TypeError'')"

definition deriveState ::
  "collaborators \<Rightarrow> InvoiceAPI \<Rightarrow> Ledger \<Rightarrow> InvoicePrivateState option
    \<Rightarrow> (thrown + InvoiceDerivedState) \<times> InvoiceAPI" where
  "deriveState ext this ledgerState privateState =
     (case privateState of
        None \<Rightarrow> (Inl TypeError, this)
      | Some ps \<Rightarrow>
          (case convert_bigint_to_Uint8Array ext 32 (Ledger.sequence ledgerState) of
             Inl error \<Rightarrow> (Inl error, this)
           | Inr sequenceBytes \<Rightarrow>
               (case buyerKey ext (secretKey ps) sequenceBytes of
                  Inl error \<Rightarrow> (Inl error, this)
                | Inr hashedSecretKey \<Rightarrow>
                    (let (parsed, this') =
                           (if Maybe_string.value (invoiceJson ledgerState) \<noteq> []
                            then (case JSON_parse (Maybe_string.value (invoiceJson ledgerState)) of
                                    Inr v \<Rightarrow> (Some v, this)
                                  | Inl e \<Rightarrow>
                                      (None, this\<lparr>logger :=
                                         log (ErrorLog ''Failed to parse invoice JSON'' e) (logger this)\<rparr>))
                            else (None, this))
                     in (Inr \<lparr>InvoiceDerivedState.state = Ledger.state ledgerState,
                              InvoiceDerivedState.sequence = Ledger.sequence ledgerState,
                              InvoiceDerivedState.amount = Ledger.amount ledgerState,
                              InvoiceDerivedState.invoiceData = parsed,
                              canPay = (toHex (buyerPk ledgerState) = toHex hashedSecretKey),
                              InvoiceDerivedState.transactionHistory =
                                InvoiceAPI.transactionHistory this\<rparr>,
                         this')))))"

subsection \<open>The operations\<close>

text \<open>
  \<open>txData.public\<close> of a call that the network has finalised. Each operation is given as
  a whole, from the call to the settling of \<open>callTx\<close>; \<open>callTx\<close> resolves when the
  transaction is finalised, or rejects. \<open>now\<close> is \<open>new Date()\<close>.
\<close>

record FinalizedTxData =
  txHash :: string
  blockHeight :: nat

definition issueInvoice ::
  "InvoiceAPI \<Rightarrow> int \<Rightarrow> InvoiceData \<Rightarrow> (int \<Rightarrow> js_string \<Rightarrow> thrown + FinalizedTxData) \<Rightarrow> int
    \<Rightarrow> (thrown + string) \<times> InvoiceAPI" where
  "issueInvoice this amountArg invoiceDataArg callTx_issueInvoice now =
     (let this1 = this\<lparr>logger := log (Info ''issuingInvoice'') (logger this)\<rparr>;
          invoiceJsonArg = JSON_stringify (InvoiceData_object invoiceDataArg)
      in case callTx_issueInvoice amountArg invoiceJsonArg of
           Inr finalizedTx \<Rightarrow>
             (let this2 = this1\<lparr>logger := log (Trace ''transactionAdded'') (logger this1)\<rparr>
              in (Inr (FinalizedTxData.txHash finalizedTx),
                  this2\<lparr>InvoiceAPI.transactionHistory := InvoiceAPI.transactionHistory this2 @
                    [\<lparr>type = Issue,
                      TransactionHistoryEntry.txHash = FinalizedTxData.txHash finalizedTx,
                      TransactionHistoryEntry.blockHeight = FinalizedTxData.blockHeight finalizedTx,
                      timestamp = now,
                      TransactionHistoryEntry.amount = Some amountArg,
                      TransactionHistoryEntry.invoiceData = Some invoiceDataArg\<rparr>]\<rparr>))
         | Inl error \<Rightarrow>
             (Inl error,
              this1\<lparr>logger := log (ErrorLog ''Failed to issue invoice'' error) (logger this1)\<rparr>))"

definition payInvoice ::
  "InvoiceAPI \<Rightarrow> (thrown + FinalizedTxData) \<Rightarrow> int \<Rightarrow> (thrown + string) \<times> InvoiceAPI" where
  "payInvoice this callTx_payInvoice now =
     (let this1 = this\<lparr>logger := log (Info ''payingInvoice'') (logger this)\<rparr>
      in case callTx_payInvoice of
           Inr finalizedTx \<Rightarrow>
             (let this2 = this1\<lparr>logger := log (Trace ''transactionAdded'') (logger this1)\<rparr>
              in (Inr (FinalizedTxData.txHash finalizedTx),
                  this2\<lparr>InvoiceAPI.transactionHistory := InvoiceAPI.transactionHistory this2 @
                    [\<lparr>type = Payment,
                      TransactionHistoryEntry.txHash = FinalizedTxData.txHash finalizedTx,
                      TransactionHistoryEntry.blockHeight = FinalizedTxData.blockHeight finalizedTx,
                      timestamp = now,
                      TransactionHistoryEntry.amount = None,
                      TransactionHistoryEntry.invoiceData = None\<rparr>]\<rparr>))
         | Inl error \<Rightarrow>
             (Inl error,
              this1\<lparr>logger := log (ErrorLog ''Failed to pay invoice'' error) (logger this1)\<rparr>))"

definition resetInvoice ::
  "InvoiceAPI \<Rightarrow> (thrown + FinalizedTxData) \<Rightarrow> int \<Rightarrow> (thrown + string) \<times> InvoiceAPI" where
  "resetInvoice this callTx_resetInvoice now =
     (let this1 = this\<lparr>logger := log (Info ''resettingInvoice'') (logger this)\<rparr>
      in case callTx_resetInvoice of
           Inr finalizedTx \<Rightarrow>
             (let this2 = this1\<lparr>logger := log (Trace ''transactionAdded'') (logger this1)\<rparr>
              in (Inr (FinalizedTxData.txHash finalizedTx),
                  this2\<lparr>InvoiceAPI.transactionHistory := InvoiceAPI.transactionHistory this2 @
                    [\<lparr>type = Reset,
                      TransactionHistoryEntry.txHash = FinalizedTxData.txHash finalizedTx,
                      TransactionHistoryEntry.blockHeight = FinalizedTxData.blockHeight finalizedTx,
                      timestamp = now,
                      TransactionHistoryEntry.amount = None,
                      TransactionHistoryEntry.invoiceData = None\<rparr>]\<rparr>))
         | Inl error \<Rightarrow>
             (Inl error,
              this1\<lparr>logger := log (ErrorLog ''Failed to reset invoice'' error) (logger this1)\<rparr>))"

subsection \<open>The stream \<open>state$\<close> and one subscriber\<close>

text \<open>
  The adapter with one subscriber of \<open>state$\<close>: the state of \<open>combineLatest\<close> (the latest
  value of each source, if it has emitted), what the subscriber has received, whether the
  stream has ended with an error, and the private state store.
\<close>

record Adapter =
  this :: InvoiceAPI
  latestLedger :: "Ledger option"
  latestPrivate :: "InvoicePrivateState option option"
  received :: "InvoiceDerivedState notification list"
  closed :: bool
  privateStateStore :: "string \<rightharpoonup> InvoicePrivateState"

definition new_Adapter ::
  "ContractAddress \<Rightarrow> (string \<rightharpoonup> InvoicePrivateState) \<Rightarrow> log_entry list option \<Rightarrow> Adapter" where
  "new_Adapter contractAddress privateStateProvider maybeLogger =
     \<lparr>this = new_InvoiceAPI contractAddress privateStateProvider maybeLogger,
      latestLedger = None, latestPrivate = None, received = [], closed = False,
      privateStateStore = privateStateProvider\<rparr>"

text \<open>
  \<open>combineLatest\<close> after a source has emitted: when both sources have a value the
  projection runs; its result goes to the subscriber, and a value it throws ends the stream
  with an error.
\<close>

definition emit :: "collaborators \<Rightarrow> Adapter \<Rightarrow> Adapter" where
  "emit ext w =
     (case (latestLedger w, latestPrivate w) of
        (Some ledgerState, Some privateState) \<Rightarrow>
          (case deriveState ext (this w) ledgerState privateState of
             (Inr derived, this') \<Rightarrow> w\<lparr>this := this', received := received w @ [Next derived]\<rparr>
           | (Inl error, this') \<Rightarrow>
               w\<lparr>this := this', received := received w @ [ErrorN error], closed := True\<rparr>)
      | _ \<Rightarrow> w)"

text \<open>
  What happens to the adapter: the ledger observable emits (and \<open>tap\<close> logs it), the
  promise of the private state lookup delivers its value (once), something stores another
  private state, or an operation runs with the given outcome of \<open>callTx\<close>.
\<close>

datatype api_event =
    LedgerState Ledger
  | PrivateStateResolved
  | PrivateStateSet InvoicePrivateState
  | IssueInvoice int InvoiceData "thrown + FinalizedTxData" int
  | PayInvoice "thrown + FinalizedTxData" int
  | ResetInvoice "thrown + FinalizedTxData" int

fun api_step :: "collaborators \<Rightarrow> api_event \<Rightarrow> Adapter \<Rightarrow> Adapter" where
  "api_step ext (LedgerState ledgerState) w =
     (if closed w then w
      else emit ext (w\<lparr>this := (this w)\<lparr>logger := log (Trace ''ledgerStateChanged'') (logger (this w))\<rparr>,
                       latestLedger := Some ledgerState\<rparr>))"
| "api_step ext PrivateStateResolved w =
     (if closed w \<or> latestPrivate w \<noteq> None then w
      else emit ext (w\<lparr>latestPrivate := Some (privateStateLookup (this w))\<rparr>))"
| "api_step ext (PrivateStateSet ps) w =
     w\<lparr>privateStateStore := (privateStateStore w)(invoicePrivateStateKey \<mapsto> ps)\<rparr>"
| "api_step ext (IssueInvoice amountArg invoiceDataArg outcome now) w =
     w\<lparr>this := snd (issueInvoice (this w) amountArg invoiceDataArg (\<lambda>a j. outcome) now)\<rparr>"
| "api_step ext (PayInvoice outcome now) w = w\<lparr>this := snd (payInvoice (this w) outcome now)\<rparr>"
| "api_step ext (ResetInvoice outcome now) w = w\<lparr>this := snd (resetInvoice (this w) outcome now)\<rparr>"

fun api_run :: "collaborators \<Rightarrow> api_event list \<Rightarrow> Adapter \<Rightarrow> Adapter" where
  "api_run ext [] w = w"
| "api_run ext (e # es) w = api_run ext es (api_step ext e w)"

fun is_PrivateStateSet :: "api_event \<Rightarrow> bool" where
  "is_PrivateStateSet (PrivateStateSet ps) = True"
| "is_PrivateStateSet e = False"

fun is_LedgerState :: "api_event \<Rightarrow> bool" where
  "is_LedgerState (LedgerState l) = True"
| "is_LedgerState e = False"

text \<open>
  An encoder and a key function for concrete runs. The encoder is the loop of the
  runtime's \<open>convert_bigint_to_Uint8Array(n, x)\<close>: byte \<open>i\<close> is \<open>Number(x & 0xffn)\<close>, then
  \<open>x = x / 0x100n\<close> (BigInt division, towards zero), returning the array as soon as \<open>x\<close>
  is zero and throwing a range error when the \<open>n\<close> bytes are used up before that. The key
  function is a stand-in for the hash.
\<close>

fun le_bytes :: "nat \<Rightarrow> int \<Rightarrow> bytes option" where
  "le_bytes 0 x = None"
| "le_bytes (Suc n) x =
     (let x' = (if x < 0 then - ((- x) div 256) else x div 256)
      in if x' = 0 then Some (of_int (x mod 256) # replicate n 0)
         else map_option (\<lambda>bs. of_int (x mod 256) # bs) (le_bytes n x'))"

definition example_collaborators :: collaborators where
  "example_collaborators =
     \<lparr>buyerKey = (\<lambda>sk seq. Inr (map (\<lambda>(a, b). a XOR b) (zip sk seq))),
      convert_bigint_to_Uint8Array =
        (\<lambda>n x. case le_bytes n x of
                  None \<Rightarrow> Inl (ThrownError (Error ''range error''))
                | Some bs \<Rightarrow> Inr bs)\<rparr>"

subsection \<open>An invariant of the stream\<close>

text \<open>
  The promise of the lookup holds the value \<open>v\<close>, \<open>combineLatest\<close> has no other private
  state, and the subscriber has received nothing before both sources have emitted.
\<close>

definition lookup_inv :: "InvoicePrivateState option \<Rightarrow> Adapter \<Rightarrow> bool" where
  "lookup_inv v w =
     (privateStateLookup (this w) = v
      \<and> (latestPrivate w = None \<or> latestPrivate w = Some v)
      \<and> (received w \<noteq> [] \<longrightarrow> latestLedger w \<noteq> None \<and> latestPrivate w \<noteq> None))"

subsection \<open>Data for concrete runs\<close>

definition example_invoice :: InvoiceData where
  "example_invoice =
     \<lparr>title = js ''T'', description = js ''D'', issuedAt = js ''2025-01-01'', currency = js ''NIGHT''\<rparr>"

definition example_private_state :: InvoicePrivateState where
  "example_private_state = \<lparr>secretKey = replicate 32 0x5A\<rparr>"

definition example_store :: "string \<rightharpoonup> InvoicePrivateState" where
  "example_store = [invoicePrivateStateKey \<mapsto> example_private_state]"

text \<open>
  A ledger state at sequence 1 whose \<open>buyerPk\<close> is what \<open>example_collaborators\<close> computes
  from \<open>example_private_state\<close>, with the given text as \<open>invoiceJson\<close>.
\<close>

definition example_ledger :: "js_string \<Rightarrow> Ledger" where
  "example_ledger text =
     \<lparr>Ledger.state = ISSUED, Ledger.sequence = 1, Ledger.amount = 100,
      buyerPk = 0x5B # replicate 31 0x5A,
      invoiceJson = \<lparr>is_some = True, Maybe_string.value = text\<rparr>\<rparr>"

definition example_adapter :: Adapter where
  "example_adapter = new_Adapter ''0200a1'' example_store (Some [])"

text \<open>Two adapters that differ at most in the private state store.\<close>

definition same_but_store :: "Adapter \<Rightarrow> Adapter \<Rightarrow> bool" where
  "same_but_store w w' =
     (this w = this w' \<and> latestLedger w = latestLedger w' \<and> latestPrivate w = latestPrivate w'
      \<and> received w = received w' \<and> closed w = closed w')"

section \<open>BrowserDeployedInvoiceManager\<close>

text \<open>
  Of a \<open>DeployedInvoiceAPI\<close> the manager reads only the address. The adapter behind it
  is modelled in the section on \<open>InvoiceAPI\<close>.
\<close>

record DeployedInvoiceAPI =
  deployedContractAddress :: ContractAddress

text \<open>The provider bundle is opaque to the manager; the number tells bundles apart.\<close>

datatype InvoiceProviders = InvoiceProviders nat

datatype InvoiceDeployment =
    InProgress
  | Deployed DeployedInvoiceAPI
  | Failed js_error

text \<open>
  A \<open>BehaviorSubject\<close>: its current \<open>value\<close>, and every notification it has delivered
  to an observer subscribed since its creation (the initial value first).
\<close>

record 'a BehaviorSubject =
  "value" :: 'a
  delivered :: "'a notification list"

definition new_BehaviorSubject :: "'a \<Rightarrow> 'a BehaviorSubject" where
  "new_BehaviorSubject v = \<lparr>value = v, delivered = [Next v]\<rparr>"

definition "next" :: "'a \<Rightarrow> 'a BehaviorSubject \<Rightarrow> 'a BehaviorSubject" where
  "next v s = \<lparr>value = v, delivered = delivered s @ [Next v]\<rparr>"

text \<open>
  \<open>deployDeployment\<close> and \<open>joinDeployment\<close> are async functions: each runs up to an
  \<open>await\<close>, and goes on when the awaited promise settles. A task records where the
  function is suspended: at \<open>await this.getProviders()\<close> (with the promise it got), or at
  \<open>await InvoiceAPI.deploy(...)\<close> / \<open>await InvoiceAPI.join(...)\<close>.
\<close>

datatype job = Deploy | Join ContractAddress

datatype task = AwaitProviders nat job | AwaitApi job | Finished

text \<open>
  The manager: the array held by \<open>#invoiceDeploymentsSubject\<close> (a deployment is
  identified by its position; the array only grows), the suspended async function of each
  deployment, the cached promise \<open>#initializedProviders\<close>, and every promise that
  \<open>initializeProviders\<close> has returned (\<open>None\<close> while pending). One call of
  \<open>initializeProviders\<close> is one wallet bootstrap, so the length of \<open>promises\<close> counts
  the bootstraps.
\<close>

record manager =
  invoiceDeployments :: "InvoiceDeployment BehaviorSubject list"
  tasks :: "task list"
  initializedProviders :: "nat option"
  promises :: "(thrown + InvoiceProviders) option list"

definition new_manager :: manager where
  "new_manager = \<lparr>invoiceDeployments = [], tasks = [], initializedProviders = None, promises = []\<rparr>"

definition initializeProviders :: "manager \<Rightarrow> nat \<times> manager" where
  "initializeProviders m = (length (promises m), m\<lparr>promises := promises m @ [None]\<rparr>)"

text \<open>
  \<open>return this.#initializedProviders ?? (this.#initializedProviders = initializeProviders(this.logger))\<close>
\<close>

definition getProviders :: "manager \<Rightarrow> nat \<times> manager" where
  "getProviders m =
     (case initializedProviders m of
        Some p \<Rightarrow> (p, m)
      | None \<Rightarrow> (let (p, m') = initializeProviders m in (p, m'\<lparr>initializedProviders := Some p\<rparr>)))"

text \<open>
  The async function after \<open>await this.getProviders()\<close>: with the bundle it calls
  \<open>InvoiceAPI.deploy\<close> or \<open>InvoiceAPI.join\<close> and awaits that; a rejection lands in the
  \<open>catch\<close> block.
\<close>

fun afterProviders ::
  "thrown + InvoiceProviders \<Rightarrow> job \<Rightarrow> InvoiceDeployment BehaviorSubject
    \<Rightarrow> InvoiceDeployment BehaviorSubject \<times> task" where
  "afterProviders (Inr providers) j d = (d, AwaitApi j)"
| "afterProviders (Inl error) j d = (next (Failed (toError error)) d, Finished)"

text \<open>The async function after \<open>await InvoiceAPI.deploy(...)\<close> / \<open>await InvoiceAPI.join(...)\<close>.\<close>

fun afterApi ::
  "thrown + DeployedInvoiceAPI \<Rightarrow> InvoiceDeployment BehaviorSubject
    \<Rightarrow> InvoiceDeployment BehaviorSubject \<times> task" where
  "afterApi (Inr api) d = (next (Deployed api) d, Finished)"
| "afterApi (Inl error) d = (next (Failed (toError error)) d, Finished)"

text \<open>
  The start of \<open>deployDeployment\<close> / \<open>joinDeployment\<close>: the body runs synchronously up to
  \<open>await this.getProviders()\<close>. When the promise is settled already, the function goes on
  in a microtask, before any other event.
\<close>

definition startDeployment ::
  "job \<Rightarrow> InvoiceDeployment BehaviorSubject \<Rightarrow> manager
    \<Rightarrow> (InvoiceDeployment BehaviorSubject \<times> task) \<times> manager" where
  "startDeployment j d m =
     (let (p, m') = getProviders m in
      case promises m' ! p of
        None \<Rightarrow> ((d, AwaitProviders p j), m')
      | Some outcome \<Rightarrow> (afterProviders outcome j d, m'))"

definition deployDeployment ::
  "InvoiceDeployment BehaviorSubject \<Rightarrow> manager
    \<Rightarrow> (InvoiceDeployment BehaviorSubject \<times> task) \<times> manager" where
  "deployDeployment d m = startDeployment Deploy d m"

definition joinDeployment ::
  "InvoiceDeployment BehaviorSubject \<Rightarrow> ContractAddress \<Rightarrow> manager
    \<Rightarrow> (InvoiceDeployment BehaviorSubject \<times> task) \<times> manager" where
  "joinDeployment d contractAddress m = startDeployment (Join contractAddress) d m"

text \<open>
  \<open>deployment.value.status === 'deployed' &&
    deployment.value.api.deployedContractAddress === contractAddress\<close>;
  an \<open>undefined\<close> address equals no string.
\<close>

fun isDeployedAt :: "ContractAddress option \<Rightarrow> InvoiceDeployment BehaviorSubject \<Rightarrow> bool" where
  "isDeployedAt contractAddress d =
     (case value d of
        Deployed api \<Rightarrow> Some (deployedContractAddress api) = contractAddress
      | _ \<Rightarrow> False)"

text \<open>\<open>Array.prototype.find\<close>, returning the position of the first match from \<open>i\<close> on.\<close>

fun find_from :: "('a \<Rightarrow> bool) \<Rightarrow> 'a list \<Rightarrow> nat \<Rightarrow> nat option" where
  "find_from P [] i = None"
| "find_from P (x # xs) i = (if P x then Some i else find_from P xs (Suc i))"

text \<open>\<open>if (contractAddress)\<close>: the empty string is falsy, as \<open>undefined\<close> is.\<close>

definition truthy :: "ContractAddress \<Rightarrow> bool" where
  "truthy a = (a \<noteq> [])"

text \<open>
  \<open>resolve\<close> returns the deployment (its position) and the manager afterwards. The new
  subject is created in-progress, the async function is started, and the array is
  replaced by the old one plus the new subject.
\<close>

definition resolve :: "ContractAddress option \<Rightarrow> manager \<Rightarrow> nat \<times> manager" where
  "resolve contractAddress m =
     (let deployments = invoiceDeployments m in
      case find_from (isDeployedAt contractAddress) deployments 0 of
        Some deployment \<Rightarrow> (deployment, m)
      | None \<Rightarrow>
          (let deployment = new_BehaviorSubject InProgress;
               ((d, t), m') =
                 (case contractAddress of
                    Some a \<Rightarrow>
                      (if truthy a then joinDeployment deployment a m
                       else deployDeployment deployment m)
                  | None \<Rightarrow> deployDeployment deployment m)
           in (length deployments,
               m'\<lparr>invoiceDeployments := deployments @ [d], tasks := tasks m' @ [t]\<rparr>)))"

text \<open>
  What happens to the manager: a call of \<open>resolve\<close>, the settling of the promise that
  \<open>initializeProviders\<close> returned, and the settling of the \<open>InvoiceAPI.deploy\<close> /
  \<open>InvoiceAPI.join\<close> promise of one deployment. A promise settles once: a settle event
  for a promise that is not pending changes nothing.
\<close>

datatype event =
    Resolve "ContractAddress option"
  | ProvidersSettled nat "thrown + InvoiceProviders"
  | ApiSettled nat "thrown + DeployedInvoiceAPI"

fun resumeProviders ::
  "nat \<Rightarrow> thrown + InvoiceProviders \<Rightarrow> InvoiceDeployment BehaviorSubject \<times> task
    \<Rightarrow> InvoiceDeployment BehaviorSubject \<times> task" where
  "resumeProviders p outcome (d, AwaitProviders q j) =
     (if q = p then afterProviders outcome j d else (d, AwaitProviders q j))"
| "resumeProviders p outcome (d, t) = (d, t)"

fun resumeApi ::
  "thrown + DeployedInvoiceAPI \<Rightarrow> InvoiceDeployment BehaviorSubject \<times> task
    \<Rightarrow> InvoiceDeployment BehaviorSubject \<times> task" where
  "resumeApi outcome (d, AwaitApi j) = afterApi outcome d"
| "resumeApi outcome (d, t) = (d, t)"

fun step :: "event \<Rightarrow> manager \<Rightarrow> manager" where
  "step (Resolve contractAddress) m = snd (resolve contractAddress m)"
| "step (ProvidersSettled p outcome) m =
     (if p < length (promises m) \<and> promises m ! p = None
      then (let resumed = map (resumeProviders p outcome) (zip (invoiceDeployments m) (tasks m))
            in m\<lparr>promises := (promises m)[p := Some outcome],
                 invoiceDeployments := map fst resumed,
                 tasks := map snd resumed\<rparr>)
      else m)"
| "step (ApiSettled i outcome) m =
     (if i < length (invoiceDeployments m) \<and> i < length (tasks m)
      then (let (d, t) = resumeApi outcome (invoiceDeployments m ! i, tasks m ! i)
            in m\<lparr>invoiceDeployments := (invoiceDeployments m)[i := d],
                 tasks := (tasks m)[i := t]\<rparr>)
      else m)"

fun run :: "event list \<Rightarrow> manager \<Rightarrow> manager" where
  "run [] m = m"
| "run (e # es) m = run es (step e m)"

definition terminal :: "InvoiceDeployment \<Rightarrow> bool" where
  "terminal s = (s \<noteq> InProgress)"

subsection \<open>Invariants of the manager\<close>

text \<open>
  A deployment and its async function agree: while the function is suspended the subject
  has delivered only the in-progress value; once it has finished the subject has delivered
  exactly one more value, a terminal one.
\<close>

definition slot_ok :: "InvoiceDeployment BehaviorSubject \<Rightarrow> task \<Rightarrow> bool" where
  "slot_ok d t =
     (if t = Finished
      then terminal (value d) \<and> delivered d = [Next InProgress, Next (value d)]
      else value d = InProgress \<and> delivered d = [Next InProgress])"

definition awaits_cached :: "manager \<Rightarrow> task \<Rightarrow> bool" where
  "awaits_cached m t = (\<forall>p j. t = AwaitProviders p j \<longrightarrow> p = 0 \<and> promises m = [None])"

definition inv :: "manager \<Rightarrow> bool" where
  "inv m =
     (list_all2 slot_ok (invoiceDeployments m) (tasks m)
      \<and> length (promises m) \<le> 1
      \<and> initializedProviders m = (if promises m = [] then None else Some 0)
      \<and> (tasks m \<noteq> [] \<longrightarrow> promises m \<noteq> [])
      \<and> list_all (awaits_cached m) (tasks m))"

text \<open>\<open>n\<close> callers of \<open>getProviders\<close>, one after the other, and the promise each receives.\<close>

fun callGetProviders :: "nat \<Rightarrow> manager \<Rightarrow> nat list \<times> manager" where
  "callGetProviders 0 m = ([], m)"
| "callGetProviders (Suc n) m =
     (let (p, m') = getProviders m; (ps, m'') = callGetProviders n m' in (p # ps, m''))"

section \<open>connectToWallet\<close>

text \<open>
  The wallet connector that the extension injects as \<open>window.midnight.mnLace\<close>. Each
  method is given by what it answers: \<open>isEnabled()\<close> may answer, reject, or fail to
  answer before the 5 s timeout; \<open>enable()\<close> and \<open>serviceUriConfig()\<close> resolve or reject.
\<close>

datatype DAppConnectorWalletAPI = DAppConnectorWalletAPI nat

record ServiceUriConfig =
  indexerUri :: string
  indexerWsUri :: string
  proverServerUri :: string

datatype isEnabled_response = Responds bool | RejectsWith thrown | NoResponse

record DAppConnectorAPI =
  apiVersion :: string
  isEnabled :: isEnabled_response
  enable :: "thrown + DAppConnectorWalletAPI"
  serviceUriConfig :: "thrown + ServiceUriConfig"

text \<open>The calls made on the connector, and the messages passed to \<open>logger.error\<close>.\<close>

datatype connector_call = CallIsEnabled | CallEnable | CallServiceUriConfig

type_synonym 'a traced = "(thrown + 'a) \<times> connector_call list \<times> string list"

definition COMPATIBLE_CONNECTOR_API_VERSION :: string where
  "COMPATIBLE_CONNECTOR_API_VERSION = ''1.x''"

text \<open>
  \<open>interval(100)\<close>, \<open>map(() => window.midnight?.mnLace)\<close>, \<open>filter(!!connectorAPI)\<close>: the
  argument lists what each poll saw before the 1 s timeout fired; the first connector seen
  goes on.
\<close>

fun firstConnector :: "DAppConnectorAPI option list \<Rightarrow> DAppConnectorAPI option" where
  "firstConnector [] = None"
| "firstConnector (None # polls) = firstConnector polls"
| "firstConnector (Some connectorAPI # polls) = Some connectorAPI"

definition incompatibleMessage :: "string \<Rightarrow> string" where
  "incompatibleMessage actual =
     ''Incompatible version of Midnight Lace wallet found. Require '' @ [CHR 0x27]
       @ COMPATIBLE_CONNECTOR_API_VERSION @ [CHR 0x27] @ '', got '' @ [CHR 0x27] @ actual
       @ [CHR 0x27] @ ''.''"

text \<open>
  The pipe up to and including \<open>concatMap(async (connectorAPI) => ... connectorAPI.enable() ...)\<close>:
  the version check, \<open>take(1)\<close> with the 1 s timeout, \<open>isEnabled()\<close> with the 5 s timeout,
  and \<open>enable()\<close>. \<open>satisfies\<close> is \<open>semver.satisfies\<close>.
\<close>

definition upToEnable ::
  "(string \<Rightarrow> string \<Rightarrow> bool) \<Rightarrow> DAppConnectorAPI option list
    \<Rightarrow> (DAppConnectorWalletAPI \<times> DAppConnectorAPI) traced" where
  "upToEnable satisfies polls =
     (case firstConnector polls of
        None \<Rightarrow>
          (Inl (ThrownError (Error ''Could not find Midnight Lace wallet. Extension installed?'')),
           [], [''Could not find wallet connector API''])
      | Some connectorAPI \<Rightarrow>
          if \<not> satisfies (apiVersion connectorAPI) COMPATIBLE_CONNECTOR_API_VERSION
          then (Inl (ThrownError (Error (incompatibleMessage (apiVersion connectorAPI)))),
                [], [''Incompatible version of wallet connector API''])
          else (case isEnabled connectorAPI of
                  NoResponse \<Rightarrow>
                    (Inl (ThrownError
                       (Error ''Midnight Lace wallet has failed to respond. Extension enabled?'')),
                     [CallIsEnabled], [''Wallet connector API has failed to respond''])
                | RejectsWith error \<Rightarrow> (Inl error, [CallIsEnabled], [])
                | Responds enabled \<Rightarrow>
                    (case enable connectorAPI of
                       Inl error \<Rightarrow> (Inl error, [CallIsEnabled, CallEnable], [])
                     | Inr walletConnectorAPI \<Rightarrow>
                         (Inr (walletConnectorAPI, connectorAPI), [CallIsEnabled, CallEnable], []))))"

text \<open>The truthiness of a thrown value: an object is truthy.\<close>

fun js_truthy :: "thrown \<Rightarrow> bool" where
  "js_truthy (ThrownError e) = True"
| "js_truthy (ThrownValue JsUndefined) = False"
| "js_truthy (ThrownValue JsNull) = False"
| "js_truthy (ThrownValue (JsBoolean b)) = b"
| "js_truthy (ThrownValue (JsString s)) = (s \<noteq> [])"

text \<open>
  The whole pipe. \<open>catchError((error, apis) => error ? throwError(...) : apis)\<close> sits after
  the \<open>enable\<close> step and receives every error raised before it; on a falsy error it returns
  \<open>apis\<close>, which subscribes to the pipe again, so the argument lists the polls of each
  subscription. \<open>None\<close>: the listed subscriptions are used up and nothing has settled.
  \<open>serviceUriConfig()\<close> comes after \<open>catchError\<close>; its rejection reaches the caller as it
  is.
\<close>

fun connectToWallet ::
  "(string \<Rightarrow> string \<Rightarrow> bool) \<Rightarrow> DAppConnectorAPI option list list
    \<Rightarrow> (DAppConnectorWalletAPI \<times> ServiceUriConfig) traced option" where
  "connectToWallet satisfies [] = None"
| "connectToWallet satisfies (polls # later) =
     (case upToEnable satisfies polls of
        (Inl error, calls, logged) \<Rightarrow>
          if js_truthy error
          then Some (Inl (ThrownError (Error ''Application is not authorized'')), calls,
                     logged @ [''Unable to enable connector API''])
          else map_option (\<lambda>(r, calls', logged'). (r, calls @ calls', logged @ logged'))
                 (connectToWallet satisfies later)
      | (Inr (walletConnectorAPI, connectorAPI), calls, logged) \<Rightarrow>
          (case serviceUriConfig connectorAPI of
             Inl error \<Rightarrow> Some (Inl error, calls @ [CallServiceUriConfig], logged)
           | Inr uris \<Rightarrow>
               Some (Inr (walletConnectorAPI, uris), calls @ [CallServiceUriConfig], logged)))"

text \<open>
  \<open>semver.satisfies(version, wanted)\<close> of the semver library, for what this code asks of it:
  a plain version \<open>MAJOR.MINOR.PATCH\<close>, three decimal numbers and nothing else, against an
  x-range \<open>MAJOR.x\<close>. What the library accepts beyond that is not modelled, and the answer
  here is \<open>False\<close> whatever the library says: a version with a leading \<open>v\<close> or \<open>=\<close>, with
  white space around it, or with a prerelease or build part, and every other range form.
  The library also refuses a component above the largest safe integer, which is accepted
  here. The function is used for concrete runs only; \<open>connectToWallet\<close> takes the
  library's function as a parameter.
\<close>

fun split_dots :: "string \<Rightarrow> string \<Rightarrow> string list" where
  "split_dots [] acc = [acc]"
| "split_dots (c # cs) acc = (if c = CHR ''.'' then acc # split_dots cs [] else split_dots cs (acc @ [c]))"

definition numeric_identifier :: "string \<Rightarrow> bool" where
  "numeric_identifier s =
     (s \<noteq> [] \<and> list_all (\<lambda>c. c \<in> set ''0123456789'') s \<and> (length s = 1 \<or> hd s \<noteq> CHR ''0''))"

definition semver_satisfies :: "string \<Rightarrow> string \<Rightarrow> bool" where
  "semver_satisfies version wanted =
     (case (split_dots version [], split_dots wanted []) of
        ([major, minor, patch], [rmajor, rminor]) \<Rightarrow>
          numeric_identifier major \<and> numeric_identifier minor \<and> numeric_identifier patch
          \<and> numeric_identifier rmajor \<and> rminor = ''x'' \<and> major = rmajor
      | _ \<Rightarrow> False)"

section \<open>Properties of the manager\<close>

lemma inv_new: "inv new_manager"
  by (simp add: inv_def new_manager_def)

lemma slot_ok_afterProviders:
  "slot_ok d (AwaitProviders p j) \<Longrightarrow> slot_ok (fst (afterProviders out j d)) (snd (afterProviders out j d))"
  by (cases out) (auto simp: slot_ok_def next_def terminal_def)

lemma slot_ok_afterApi:
  "slot_ok d (AwaitApi j) \<Longrightarrow> slot_ok (fst (afterApi out d)) (snd (afterApi out d))"
  by (cases out) (auto simp: slot_ok_def next_def terminal_def)

lemma slot_ok_resumeProviders:
  "slot_ok d t \<Longrightarrow> slot_ok (fst (resumeProviders p out (d, t))) (snd (resumeProviders p out (d, t)))"
  by (cases t) (auto simp: slot_ok_afterProviders)

lemma slot_ok_resumeApi:
  "slot_ok d t \<Longrightarrow> slot_ok (fst (resumeApi out (d, t))) (snd (resumeApi out (d, t)))"
  by (cases t) (auto simp: slot_ok_afterApi)

lemma list_all2_map_zip:
  assumes "list_all2 P xs ys" and "\<And>x y. P x y \<Longrightarrow> P (fst (f (x, y))) (snd (f (x, y)))"
  shows "list_all2 P (map fst (map f (zip xs ys))) (map snd (map f (zip xs ys)))"
  using assms by (induction rule: list_all2_induct) auto

lemma getProviders_inv:
  assumes "inv m"
  shows "fst (getProviders m) = 0" and "promises (snd (getProviders m)) = (if promises m = [] then [None] else promises m)"
    and "initializedProviders (snd (getProviders m)) = Some 0"
    and "invoiceDeployments (snd (getProviders m)) = invoiceDeployments m"
    and "tasks (snd (getProviders m)) = tasks m"
  using assms by (auto simp: inv_def getProviders_def initializeProviders_def split: option.splits if_splits)

lemma inv_getProviders: "inv m \<Longrightarrow> inv (snd (getProviders m))"
  using getProviders_inv[of m]
  apply (auto simp: inv_def list_all_iff awaits_cached_def split: if_splits)
  done


lemma afterProviders_not_await: "snd (afterProviders out j d) \<noteq> AwaitProviders p j'"
  by (cases out) auto

lemma startDeployment_props:
  assumes "inv m" and "d = new_BehaviorSubject InProgress"
  shows "slot_ok (fst (fst (startDeployment j d m))) (snd (fst (startDeployment j d m)))"
    and "snd (startDeployment j d m) = snd (getProviders m)"
    and "awaits_cached (snd (getProviders m)) (snd (fst (startDeployment j d m)))"
proof -
  obtain p m' where g: "getProviders m = (p, m')" by (cases "getProviders m")
  have p0: "p = 0" using getProviders_inv(1)[OF assms(1)] g by simp
  have d0: "slot_ok d (AwaitProviders p j)"
    by (simp add: assms(2) slot_ok_def new_BehaviorSubject_def)
  show "slot_ok (fst (fst (startDeployment j d m))) (snd (fst (startDeployment j d m)))"
    using d0 slot_ok_afterProviders[OF d0]
    by (simp add: startDeployment_def g split: option.splits)
  show "snd (startDeployment j d m) = snd (getProviders m)"
    by (simp add: startDeployment_def g split: option.splits)
  have "promises m' = [None] \<or> (\<exists>out. promises m' = [Some out])"
    using getProviders_inv(2)[OF assms(1)] g assms(1)
    by (cases "promises m") (auto simp: inv_def split: if_splits)
  then show "awaits_cached (snd (getProviders m)) (snd (fst (startDeployment j d m)))"
    by (cases "promises m' ! 0") (auto simp: startDeployment_def g p0 awaits_cached_def afterProviders_not_await split: option.splits)
qed

lemma awaits_cached_cong:
  "promises m' = promises m \<Longrightarrow> awaits_cached m' t = awaits_cached m t"
  by (simp add: awaits_cached_def)

lemma resolve_found:
  "find_from (isDeployedAt a) (invoiceDeployments m) 0 = Some i \<Longrightarrow> resolve a m = (i, m)"
  by (simp add: resolve_def)

lemma resolve_new:
  assumes "find_from (isDeployedAt a) (invoiceDeployments m) 0 = None"
  shows "\<exists>j. resolve a m = (length (invoiceDeployments m),
           (snd (startDeployment j (new_BehaviorSubject InProgress) m))
             \<lparr>invoiceDeployments := invoiceDeployments m @ [fst (fst (startDeployment j (new_BehaviorSubject InProgress) m))],
              tasks := tasks (snd (startDeployment j (new_BehaviorSubject InProgress) m)) @ [snd (fst (startDeployment j (new_BehaviorSubject InProgress) m))]\<rparr>)"
proof (cases a)
  case None
  show ?thesis
    using assms by (intro exI[of _ Deploy])
       (simp add: None resolve_def Let_def deployDeployment_def split: prod.splits)
next
  case (Some x)
  show ?thesis
  proof (cases "truthy x")
    case True
    show ?thesis
      using assms by (intro exI[of _ "Join x"])
         (simp add: Some True resolve_def Let_def joinDeployment_def split: prod.splits)
  next
    case False
    show ?thesis
      using assms by (intro exI[of _ Deploy])
         (simp add: Some False resolve_def Let_def deployDeployment_def split: prod.splits)
  qed
qed

lemma inv_resolve: assumes "inv m" shows "inv (snd (resolve a m))"
proof (cases "find_from (isDeployedAt a) (invoiceDeployments m) 0")
  case (Some i)
  then show ?thesis using assms by (simp add: resolve_found)
next
  case None
  from resolve_new[OF None] obtain j where
    r: "resolve a m = (length (invoiceDeployments m),
           (snd (startDeployment j (new_BehaviorSubject InProgress) m))
             \<lparr>invoiceDeployments := invoiceDeployments m @ [fst (fst (startDeployment j (new_BehaviorSubject InProgress) m))],
              tasks := tasks (snd (startDeployment j (new_BehaviorSubject InProgress) m)) @ [snd (fst (startDeployment j (new_BehaviorSubject InProgress) m))]\<rparr>)"
    by blast
  note sp = startDeployment_props[OF assms refl, of j]
  note gp = getProviders_inv[OF assms]
  have ig: "inv (snd (getProviders m))" by (rule inv_getProviders[OF assms])
  show ?thesis
    using sp ig gp assms
    by (auto simp: r inv_def list_all2_appendI awaits_cached_def list_all_iff split: if_splits)
qed

lemma inv_step: assumes "inv m" shows "inv (step e m)"
proof (cases e)
  case (Resolve a)
  then show ?thesis using inv_resolve[OF assms] by simp
next
  case (ProvidersSettled p out)
  show ?thesis
  proof (cases "p < length (promises m) \<and> promises m ! p = None")
    case False
    then show ?thesis using assms ProvidersSettled by auto
  next
    case True
    then have pm: "promises m = [None]" and p0: "p = 0"
      using assms by (cases "promises m"; auto simp: inv_def)+
    let ?r = "map (resumeProviders p out) (zip (invoiceDeployments m) (tasks m))"
    have a: "list_all2 slot_ok (map fst ?r) (map snd ?r)"
      using assms by (intro list_all2_map_zip) (auto simp: inv_def slot_ok_resumeProviders)
    have len: "length (invoiceDeployments m) = length (tasks m)"
      using assms by (auto simp: inv_def dest: list_all2_lengthD)
    have b: "\<forall>t \<in> set (map snd ?r). \<forall>q j. t \<noteq> AwaitProviders q j"
    proof
      fix t assume "t \<in> set (map snd ?r)"
      then obtain d0 t0 where m: "(d0, t0) \<in> set (zip (invoiceDeployments m) (tasks m))"
        and t: "t = snd (resumeProviders p out (d0, t0))" by auto
      have "t0 \<in> set (tasks m)" using m by (rule set_zip_rightD)
      then have "awaits_cached m t0" using assms by (auto simp: inv_def list_all_iff)
      then show "\<forall>q j. t \<noteq> AwaitProviders q j"
        using t p0 by (cases t0; cases out) (auto simp: awaits_cached_def)
    qed
    have c: "tasks m \<noteq> [] \<longrightarrow> ?r \<noteq> []" using len by (cases "tasks m"; cases "invoiceDeployments m") auto
    show ?thesis
      using a b c True assms
      by (auto simp: ProvidersSettled inv_def pm p0 Let_def list_all_iff awaits_cached_def)
  qed
next
  case (ApiSettled i out)
  show ?thesis
  proof (cases "i < length (invoiceDeployments m) \<and> i < length (tasks m)")
    case False
    then show ?thesis using assms ApiSettled by auto
  next
    case True
    obtain d t where r: "resumeApi out (invoiceDeployments m ! i, tasks m ! i) = (d, t)"
      by (cases "resumeApi out (invoiceDeployments m ! i, tasks m ! i)")
    have so: "slot_ok (invoiceDeployments m ! i) (tasks m ! i)"
      using assms True by (auto simp: inv_def list_all2_conv_all_nth)
    have s: "slot_ok d t" using slot_ok_resumeApi[OF so, of out] r by simp
    have t: "\<forall>q j. t = AwaitProviders q j \<longrightarrow> tasks m ! i = AwaitProviders q j"
      using r by (cases "tasks m ! i"; cases out) auto
    have aw: "awaits_cached m t"
      using t assms True by (auto simp: inv_def list_all_iff awaits_cached_def all_set_conv_all_nth)
    have "list_all2 slot_ok ((invoiceDeployments m)[i := d]) ((tasks m)[i := t])"
      using assms s by (auto simp: inv_def intro: list_all2_update_cong)
    moreover have "list_all (awaits_cached m) ((tasks m)[i := t])"
      using assms aw by (auto simp: inv_def list_all_iff dest!: set_update_subset_insert[THEN subsetD])
    ultimately show ?thesis
      using True assms
      by (auto simp: ApiSettled inv_def r awaits_cached_def list_all_iff)
  qed
qed

lemma inv_run: "inv m \<Longrightarrow> inv (run es m)"
  by (induction es arbitrary: m) (auto simp: inv_step)

lemma find_from_Some:
  "find_from P xs k = Some i \<Longrightarrow> k \<le> i \<and> i - k < length xs \<and> P (xs ! (i - k)) \<and> (\<forall>j < i - k. \<not> P (xs ! j))"
proof (induction xs arbitrary: k)
  case Nil
  then show ?case by simp
next
  case (Cons x xs)
  show ?case
  proof (cases "P x")
    case True
    then show ?thesis using Cons.prems by simp
  next
    case False
    then have "find_from P xs (Suc k) = Some i" using Cons.prems by simp
    from Cons.IH[OF this] have ih: "Suc k \<le> i" "i - Suc k < length xs" "P (xs ! (i - Suc k))"
      "\<forall>j < i - Suc k. \<not> P (xs ! j)" by auto
    have e: "i - k = Suc (i - Suc k)" using ih(1) by simp
    show ?thesis using ih False e by (auto simp: nth_Cons split: nat.splits)
  qed
qed

lemma find_from_None: "find_from P xs k = None \<longleftrightarrow> (\<forall>x \<in> set xs. \<not> P x)"
  by (induction xs arbitrary: k) auto

lemma find_from_least:
  assumes "i < length xs" "P (xs ! i)" "\<forall>j < i. \<not> P (xs ! j)"
  shows "find_from P xs 0 = Some i"
proof (cases "find_from P xs 0")
  case None
  then show ?thesis using assms by (auto simp: find_from_None)
next
  case (Some k)
  from find_from_Some[OF Some] have "k < length xs" "P (xs ! k)" "\<forall>j < k. \<not> P (xs ! j)" by auto
  then have "k = i" using assms by (meson nat_neq_iff)
  then show ?thesis using Some by simp
qed

lemma find_from_exists:
  assumes "i < length xs" "P (xs ! i)"
  shows "\<exists>k \<le> i. find_from P xs 0 = Some k"
proof (cases "find_from P xs 0")
  case None
  then show ?thesis using assms by (auto simp: find_from_None)
next
  case (Some k)
  from find_from_Some[OF Some] have "\<forall>j < k. \<not> P (xs ! j)" by auto
  then have "k \<le> i" using assms(2) by (meson not_le)
  then show ?thesis using Some by simp
qed

text \<open>A deployment whose async function has finished is never touched again.\<close>

lemma step_length: "inv m \<Longrightarrow> length (invoiceDeployments m) \<le> length (invoiceDeployments (step e m))"
proof (cases e)
  case (Resolve a)
  assume "inv m"
  show ?thesis
  proof (cases "find_from (isDeployedAt a) (invoiceDeployments m) 0")
    case None
    from resolve_new[OF None] show ?thesis by (auto simp: Resolve)
  next
    case (Some i)
    then show ?thesis by (simp add: Resolve resolve_found)
  qed
next
  case (ProvidersSettled p out)
  assume "inv m"
  then have "length (invoiceDeployments m) = length (tasks m)" by (auto simp: inv_def dest: list_all2_lengthD)
  then show ?thesis by (simp add: ProvidersSettled Let_def)
next
  case (ApiSettled i out)
  then show ?thesis by (simp add: Let_def split: prod.splits)
qed

lemma step_finished:
  assumes "inv m" "i < length (invoiceDeployments m)" "tasks m ! i = Finished"
  shows "invoiceDeployments (step e m) ! i = invoiceDeployments m ! i \<and> tasks (step e m) ! i = Finished"
proof -
  have len: "length (invoiceDeployments m) = length (tasks m)"
    using assms(1) by (auto simp: inv_def dest: list_all2_lengthD)
  show ?thesis
  proof (cases e)
    case (Resolve a)
    show ?thesis
    proof (cases "find_from (isDeployedAt a) (invoiceDeployments m) 0")
      case None
      from resolve_new[OF None] obtain j where
        "resolve a m = (length (invoiceDeployments m),
           (snd (startDeployment j (new_BehaviorSubject InProgress) m))
             \<lparr>invoiceDeployments := invoiceDeployments m @ [fst (fst (startDeployment j (new_BehaviorSubject InProgress) m))],
              tasks := tasks (snd (startDeployment j (new_BehaviorSubject InProgress) m)) @ [snd (fst (startDeployment j (new_BehaviorSubject InProgress) m))]\<rparr>)"
        by blast
      then show ?thesis
        using assms len startDeployment_props(2)[OF assms(1) refl, of j] getProviders_inv(5)[OF assms(1)]
        by (simp add: Resolve nth_append)
    next
      case (Some k)
      then show ?thesis using assms by (simp add: Resolve resolve_found)
    qed
  next
    case (ProvidersSettled p out)
    show ?thesis using assms len by (simp add: ProvidersSettled Let_def)
  next
    case (ApiSettled k out)
    show ?thesis using assms len
      by (cases "k = i") (auto simp: ApiSettled Let_def split: prod.splits)
  qed
qed

lemma run_finished:
  assumes "inv m" "i < length (invoiceDeployments m)" "tasks m ! i = Finished"
  shows "i < length (invoiceDeployments (run es m))
         \<and> invoiceDeployments (run es m) ! i = invoiceDeployments m ! i
         \<and> tasks (run es m) ! i = Finished"
  using assms
proof (induction es arbitrary: m)
  case Nil
  then show ?case by simp
next
  case (Cons e es)
  have a: "inv (step e m)" using Cons.prems(1) by (rule inv_step)
  have b: "i < length (invoiceDeployments (step e m))"
    using step_length[OF Cons.prems(1), of e] Cons.prems(2) by simp
  have c: "invoiceDeployments (step e m) ! i = invoiceDeployments m ! i \<and> tasks (step e m) ! i = Finished"
    using step_finished[OF Cons.prems] .
  from Cons.IH[OF a b] c show ?case by simp
qed

lemma deployed_finished:
  assumes "inv m" "i < length (invoiceDeployments m)" "value (invoiceDeployments m ! i) = Deployed api"
  shows "tasks m ! i = Finished"
proof -
  have "slot_ok (invoiceDeployments m ! i) (tasks m ! i)"
    using assms by (auto simp: inv_def list_all2_conv_all_nth)
  then show ?thesis using assms(3) by (auto simp: slot_ok_def split: if_splits)
qed


lemma callGetProviders_inv:
  assumes "inv m" and "callGetProviders n m = (ps, m')"
  shows "ps = replicate n 0 \<and> inv m'
         \<and> promises m' = (if n = 0 \<or> promises m \<noteq> [] then promises m else [None])
         \<and> invoiceDeployments m' = invoiceDeployments m \<and> tasks m' = tasks m"
  using assms
proof (induction n arbitrary: m ps m')
  case 0
  then show ?case by simp
next
  case (Suc n)
  obtain p m1 where g: "getProviders m = (p, m1)" by (cases "getProviders m")
  obtain qs m2 where c: "callGetProviders n m1 = (qs, m2)" by (cases "callGetProviders n m1")
  have i1: "inv m1" using inv_getProviders[OF Suc.prems(1)] g by simp
  note gp = getProviders_inv[OF Suc.prems(1), unfolded g, simplified]
  from Suc.IH[OF i1 c] gp Suc.prems(2) g c show ?case
    by (auto split: if_splits)
qed

lemma resolve_promises:
  assumes "inv m" "promises m \<noteq> []"
  shows "promises (snd (resolve a m)) = promises m"
proof (cases "find_from (isDeployedAt a) (invoiceDeployments m) 0")
  case None
  from resolve_new[OF None] obtain j where
    "resolve a m = (length (invoiceDeployments m),
       (snd (startDeployment j (new_BehaviorSubject InProgress) m))
         \<lparr>invoiceDeployments := invoiceDeployments m @ [fst (fst (startDeployment j (new_BehaviorSubject InProgress) m))],
          tasks := tasks (snd (startDeployment j (new_BehaviorSubject InProgress) m)) @ [snd (fst (startDeployment j (new_BehaviorSubject InProgress) m))]\<rparr>)"
    by blast
  then show ?thesis
    using startDeployment_props(2)[OF assms(1) refl, of j] getProviders_inv(2)[OF assms(1)] assms(2)
    by simp
next
  case (Some i)
  then show ?thesis by (simp add: resolve_found)
qed

lemma settled_stable_step:
  assumes "inv m" "promises m = [Some out]"
  shows "promises (step e m) = [Some out]"
proof (cases e)
  case (Resolve a)
  then show ?thesis using resolve_promises[OF assms(1), of a] assms(2) by simp
next
  case (ProvidersSettled p o2)
  then show ?thesis using assms by (cases p) auto
next
  case (ApiSettled i o2)
  then show ?thesis using assms by (auto simp: Let_def split: prod.splits)
qed

lemma settled_stable_run:
  "inv m \<Longrightarrow> promises m = [Some out] \<Longrightarrow> promises (run es m) = [Some out]"
  by (induction es arbitrary: m) (auto simp: inv_step settled_stable_step)

lemma promises_shape: "inv m \<Longrightarrow> promises m = [] \<or> promises m = [promises m ! 0]"
  by (cases "promises m") (auto simp: inv_def)

lemma getProviders_cached:
  assumes "inv m" "promises m \<noteq> []"
  shows "getProviders m = (0, m)"
  using assms by (auto simp: inv_def getProviders_def split: option.splits if_splits)

lemma resumeProviders_rejected:
  "resumeProviders 0 (Inl e) (d, AwaitProviders 0 j) = (next (Failed (toError e)) d, Finished)"
  by simp

text \<open>The definitions that a concrete run unfolds.\<close>

lemmas manager_eval =
  new_manager_def resolve_def truthy_def joinDeployment_def deployDeployment_def
  startDeployment_def getProviders_def initializeProviders_def new_BehaviorSubject_def
  next_def Let_def

section \<open>Properties of the JSON functions\<close>

lemma unat_digit_0: "n < 16 \<Longrightarrow> unat (0x30 + of_nat n :: 16 word) = 48 + n"
  by (simp add: unat_word_ariths unat_of_nat)

lemma unat_digit_a: "n < 16 \<Longrightarrow> unat (0x57 + of_nat n :: 16 word) = 87 + n"
  by (simp add: unat_word_ariths unat_of_nat)

lemma hex_value_hex_digit: "n < 16 \<Longrightarrow> hex_value (hex_digit n) = Some n"
  by (simp add: hex_value_def hex_digit_def word_le_nat_alt unat_digit_0 unat_digit_a)

lemma hex_digits_nat:
  fixes x :: nat
  assumes "x < 65536"
  shows "((x div 4096 mod 16 * 16 + x div 256 mod 16) * 16 + x div 16 mod 16) * 16 + x mod 16 = x"
proof -
  define a where "a = x div 16"
  define b where "b = a div 16"
  define d where "d = b div 16"
  have xa: "x div 256 = b" "x div 4096 = d"
    by (simp_all add: a_def b_def d_def div_mult2_eq)
  have d16: "d < 16" using assms xa(2) by (simp add: div_less_iff_less_mult)
  have e1: "d * 16 + b mod 16 = b" unfolding d_def by (simp add: mult.commute)
  have e2: "b * 16 + a mod 16 = a" unfolding b_def by (simp add: mult.commute)
  have e3: "a * 16 + x mod 16 = x" unfolding a_def by (simp add: mult.commute)
  have "((d mod 16 * 16 + b mod 16) * 16 + a mod 16) * 16 + x mod 16 = x"
    using d16 by (simp add: e1 e2 e3)
  then show ?thesis by (simp add: xa a_def[symmetric])
qed

lemma hex4_value:
  fixes c :: "16 word"
  shows "of_nat (((unat c div 4096 mod 16 * 16 + unat c div 256 mod 16) * 16
            + unat c div 16 mod 16) * 16 + unat c mod 16) = c"
proof -
  have "unat c < 65536" using unsigned_less[of c, where 'a = nat] by simp
  then have "((unat c div 4096 mod 16 * 16 + unat c div 256 mod 16) * 16
            + unat c div 16 mod 16) * 16 + unat c mod 16 = unat c"
    by (rule hex_digits_nat)
  then show ?thesis by (simp only: of_nat_unat ucast_id)
qed

lemma string_chars_quote: "string_chars (0x22 # cs) acc = Some (acc, cs)"
  by simp

lemma string_chars_escape:
  "unescape e = Some u \<Longrightarrow> e \<noteq> 0x75 \<Longrightarrow> string_chars (0x5C # e # cs) acc = string_chars cs (acc @ [u])"
  by simp

lemma string_chars_unicode:
  "string_chars (unicode_escape c @ cs) acc = string_chars cs (acc @ [c])"
proof -
  have "string_chars (unicode_escape c @ cs) acc
          = string_chars cs (acc @ [of_nat (((unat c div 4096 mod 16 * 16 + unat c div 256 mod 16) * 16
            + unat c div 16 mod 16) * 16 + unat c mod 16)])"
    by (simp add: unicode_escape_def hex4_def hex_value_hex_digit del: of_nat_add of_nat_mult)
  then show ?thesis by (simp only: hex4_value)
qed

lemma string_chars_plain:
  "c \<noteq> 0x22 \<Longrightarrow> c \<noteq> 0x5C \<Longrightarrow> \<not> c < 0x20 \<Longrightarrow> string_chars (c # cs) acc = string_chars cs (acc @ [c])"
  by simp

lemma surrogate_plain:
  assumes "is_high_surrogate c \<or> is_low_surrogate c"
  shows "c \<noteq> 0x22 \<and> c \<noteq> 0x5C \<and> \<not> c < 0x20"
  using assms by (auto simp: is_high_surrogate_def is_low_surrogate_def word_le_nat_alt word_less_nat_alt)


lemma string_chars_quote_chars_short:
  assumes "c = 0x08 \<or> c = 0x09 \<or> c = 0x0A \<or> c = 0x0C \<or> c = 0x0D \<or> c = 0x22 \<or> c = 0x5C"
  shows "string_chars (quote_chars (c # cs) @ rest) acc = string_chars (quote_chars cs @ rest) (acc @ [c])"
  using assms by (elim disjE) (simp_all add: unescape_def)


lemma string_chars_quote_chars_control:
  assumes "c < 0x20" "c \<noteq> 0x08" "c \<noteq> 0x09" "c \<noteq> 0x0A" "c \<noteq> 0x0C" "c \<noteq> 0x0D"
  shows "string_chars (quote_chars (c # cs) @ rest) acc = string_chars (quote_chars cs @ rest) (acc @ [c])"
proof -
  have "c \<noteq> 0x22" "c \<noteq> 0x5C" using assms(1) by auto
  then have "quote_chars (c # cs) = unicode_escape c @ quote_chars cs"
    using assms by simp
  then show ?thesis by (simp only: append_assoc string_chars_unicode)
qed

lemma string_chars_quote_chars_pair:
  assumes "is_high_surrogate c" "is_low_surrogate d"
  shows "string_chars (quote_chars (c # d # ds) @ rest) acc = string_chars (quote_chars ds @ rest) (acc @ [c, d])"
proof -
  have pc: "c \<noteq> 0x22 \<and> c \<noteq> 0x5C \<and> \<not> c < 0x20" using surrogate_plain[of c] assms by simp
  have pd: "d \<noteq> 0x22 \<and> d \<noteq> 0x5C \<and> \<not> d < 0x20" using surrogate_plain[of d] assms by simp
  have nc: "c \<noteq> 0x08" "c \<noteq> 0x09" "c \<noteq> 0x0A" "c \<noteq> 0x0C" "c \<noteq> 0x0D"
    using pc by auto
  have "quote_chars (c # d # ds) = c # d # quote_chars ds"
    using assms pc nc by simp
  then show ?thesis
    using pc pd by (simp del: string_chars.simps add: string_chars_plain)
qed

lemma high_not_low: "is_high_surrogate c \<Longrightarrow> \<not> is_low_surrogate c"
  by (auto simp: is_high_surrogate_def is_low_surrogate_def word_le_nat_alt)

lemma string_chars_quote_chars_lone:
  assumes "is_high_surrogate c \<and> (cs = [] \<or> \<not> is_low_surrogate (hd cs)) \<or> is_low_surrogate c"
  shows "string_chars (quote_chars (c # cs) @ rest) acc = string_chars (quote_chars cs @ rest) (acc @ [c])"
proof -
  have pc: "c \<noteq> 0x22 \<and> c \<noteq> 0x5C \<and> \<not> c < 0x20" using surrogate_plain[of c] assms by auto
  have nc: "c \<noteq> 0x08" "c \<noteq> 0x09" "c \<noteq> 0x0A" "c \<noteq> 0x0C" "c \<noteq> 0x0D"
    using pc by auto
  have "quote_chars (c # cs) = unicode_escape c @ quote_chars cs"
  proof (cases "is_high_surrogate c")
    case True
    then have "cs = [] \<or> \<not> is_low_surrogate (hd cs)" using assms high_not_low by blast
    then show ?thesis
      using True pc nc by (cases cs) (simp_all del: quote_chars.simps add: quote_chars.simps(1) quote_chars.simps(2)[of c])
  next
    case False
    then have "is_low_surrogate c" using assms by blast
    then show ?thesis
      using False pc nc by (simp del: quote_chars.simps add: quote_chars.simps(2)[of c])
  qed
  then show ?thesis by (simp only: append_assoc string_chars_unicode)
qed

lemma string_chars_quote_chars_plain:
  assumes "\<not> c < 0x20" "c \<noteq> 0x22" "c \<noteq> 0x5C" "\<not> is_high_surrogate c" "\<not> is_low_surrogate c"
  shows "string_chars (quote_chars (c # cs) @ rest) acc = string_chars (quote_chars cs @ rest) (acc @ [c])"
proof -
  have nc: "c \<noteq> 0x08" "c \<noteq> 0x09" "c \<noteq> 0x0A" "c \<noteq> 0x0C" "c \<noteq> 0x0D"
    using assms(1) by auto
  have "quote_chars (c # cs) = c # quote_chars cs"
    using assms nc by simp
  then show ?thesis
    using assms by (simp del: string_chars.simps add: string_chars_plain)
qed

lemma string_chars_quote_chars:
  "string_chars (quote_chars s @ 0x22 # rest) acc = Some (acc @ s, rest)"
proof (induction "length s" arbitrary: s acc rule: less_induct)
  case less
  show ?case
  proof (cases s)
    case Nil
    then show ?thesis by simp
  next
    case (Cons c cs)
    have IH: "string_chars (quote_chars t @ 0x22 # rest) acc' = Some (acc' @ t, rest)"
      if "length t < length s" for t acc'
      using less[OF that] .
    have one: ?thesis
      if "string_chars (quote_chars (c # cs) @ 0x22 # rest) acc
            = string_chars (quote_chars cs @ 0x22 # rest) (acc @ [c])"
      using that IH[of cs "acc @ [c]"] Cons by simp
    consider (short) "c = 0x08 \<or> c = 0x09 \<or> c = 0x0A \<or> c = 0x0C \<or> c = 0x0D \<or> c = 0x22 \<or> c = 0x5C"
      | (ctl) "c < 0x20" "c \<noteq> 0x08" "c \<noteq> 0x09" "c \<noteq> 0x0A" "c \<noteq> 0x0C" "c \<noteq> 0x0D"
      | (pair) d ds where "is_high_surrogate c" "cs = d # ds" "is_low_surrogate d"
      | (lone) "is_high_surrogate c \<and> (cs = [] \<or> \<not> is_low_surrogate (hd cs)) \<or> is_low_surrogate c"
      | (plain) "\<not> c < 0x20" "c \<noteq> 0x22" "c \<noteq> 0x5C" "\<not> is_high_surrogate c" "\<not> is_low_surrogate c"
      by (cases cs) auto
    then show ?thesis
    proof cases
      case short
      then show ?thesis by (intro one string_chars_quote_chars_short)
    next
      case ctl
      then show ?thesis by (intro one string_chars_quote_chars_control)
    next
      case pair
      have "string_chars (quote_chars (c # d # ds) @ 0x22 # rest) acc
              = string_chars (quote_chars ds @ 0x22 # rest) (acc @ [c, d])"
        using pair by (intro string_chars_quote_chars_pair)
      then show ?thesis using IH[of ds "acc @ [c, d]"] Cons pair(2) by simp
    next
      case lone
      then show ?thesis by (intro one string_chars_quote_chars_lone)
    next
      case plain
      then show ?thesis by (intro one string_chars_quote_chars_plain)
    qed
  qed
qed

subsection \<open>The bound on the nested calls of the parser is enough\<close>

lemma skip_ws_length: "length (skip_ws s) \<le> length s"
  by (induction s) auto

lemma after_literal_length: "after_literal p s = Some r \<Longrightarrow> length r \<le> length s"
  by (induction p s rule: after_literal.induct) (auto split: if_splits)

lemma string_chars_length: "string_chars s acc = Some (x, r) \<Longrightarrow> length r < length s"
proof (induction "length s" arbitrary: s acc rule: less_induct)
  case less
  show ?case
  proof (cases s)
    case Nil
    then show ?thesis using less.prems by simp
  next
    case (Cons c cs)
    have IH: "string_chars t acc' = Some (x, r) \<Longrightarrow> length r < length t"
      if "length t < length s" for t acc'
      using less.hyps[OF that] by blast
    show ?thesis
      using less.prems Cons
      by (auto split: if_splits list.splits option.splits dest!: IH[rotated])
  qed
qed

lemma digits1_length: "digits1 s = Some (x, r) \<Longrightarrow> length r \<le> length s"
  by (auto simp: digits1_def length_dropWhile_le split: if_splits)

lemma number_int_length: "number_int s = Some (x, r) \<Longrightarrow> length r < length s"
  by (auto simp: number_int_def less_Suc_eq_le length_dropWhile_le split: list.splits if_splits)

lemma number_frac_length: "number_frac s = Some (x, r) \<Longrightarrow> length r \<le> length s"
  by (auto simp: number_frac_def split: list.splits if_splits dest!: digits1_length)

lemma number_exp_length: "number_exp s = Some (x, r) \<Longrightarrow> length r \<le> length s"
  by (auto simp: number_exp_def split: list.splits if_splits dest!: digits1_length)

lemma parse_number_length: "parse_number s = Some (x, r) \<Longrightarrow> length r < length s"
  by (auto simp: parse_number_def Let_def split: list.splits if_splits option.splits prod.splits
           dest!: number_int_length number_frac_length number_exp_length)


lemma skip_ws_Cons_length: "skip_ws s = c # cs \<Longrightarrow> length cs < length s"
  using skip_ws_length[of s] by simp

lemma parse_shrink:
  "(\<forall>s v r. parse_value n s = Some (v, r) \<longrightarrow> length r < length s)
   \<and> (\<forall>s acc vs r. parse_elements n s acc = Some (vs, r) \<longrightarrow> length r < length s)
   \<and> (\<forall>s acc ms r. parse_members n s acc = Some (ms, r) \<longrightarrow> length r < length s)"
proof (induction n)
  case 0
  show ?case by simp
next
  case (Suc n)
  have IHv: "parse_value n s = Some (v, r) \<Longrightarrow> length r < length s" for s v r
    using Suc by blast
  have IHe: "parse_elements n s acc = Some (vs, r) \<Longrightarrow> length r < length s" for s acc vs r
    using Suc by blast
  have IHm: "parse_members n s acc = Some (ms, r) \<Longrightarrow> length r < length s" for s acc ms r
    using Suc by blast
  have v: "length r < length s" if p: "parse_value (Suc n) s = Some (v, r)" for s v r
  proof (cases "skip_ws s")
    case Nil
    then show ?thesis using p by simp
  next
    case (Cons c cs)
    note l = skip_ws_Cons_length[OF Cons]
    consider (obj) "c = 0x7B" | (arr) "c = 0x5B" "c \<noteq> 0x7B"
      | (other) "c \<noteq> 0x7B" "c \<noteq> 0x5B" by blast
    then show ?thesis
    proof cases
      case obj
      show ?thesis
      proof (cases "skip_ws cs")
        case Nil
        then show ?thesis using p Cons obj by simp
      next
        case (Cons c' cs')
        note l' = skip_ws_Cons_length[OF Cons]
        show ?thesis
          using p \<open>skip_ws s = c # cs\<close> obj Cons l l'
          by (auto split: if_splits dest!: IHm)
      qed
    next
      case arr
      show ?thesis
      proof (cases "skip_ws cs")
        case Nil
        then show ?thesis using p Cons arr by simp
      next
        case (Cons c' cs')
        note l' = skip_ws_Cons_length[OF Cons]
        show ?thesis
          using p \<open>skip_ws s = c # cs\<close> arr Cons l l'
          by (auto split: if_splits dest!: IHe)
      qed
    next
      case other
      have "length (c # cs) \<le> length s" using l by simp
      then show ?thesis
        using p Cons other
        by (auto split: if_splits
              dest!: string_chars_length after_literal_length parse_number_length)
    qed
  qed
  have e: "length r < length s" if p: "parse_elements (Suc n) s acc = Some (vs, r)" for s acc vs r
  proof -
    from p obtain v r1 where a: "parse_value n s = Some (v, r1)"
      by (auto split: option.splits)
    note l1 = IHv[OF a]
    show ?thesis
    proof (cases "skip_ws r1")
      case Nil
      then show ?thesis using p a by simp
    next
      case (Cons c r')
      note l2 = skip_ws_Cons_length[OF Cons]
      show ?thesis
        using p a Cons l1 l2
        by (auto split: if_splits dest!: IHe)
    qed
  qed
  have m: "length r < length s" if p: "parse_members (Suc n) s acc = Some (ms, r)" for s acc ms r
  proof (cases "skip_ws s")
    case Nil
    then show ?thesis using p by simp
  next
    case (Cons c cs)
    note l = skip_ws_Cons_length[OF Cons]
    from p Cons obtain key r1 where c: "c = 0x22" and k: "string_chars cs [] = Some (key, r1)"
      by (auto split: if_splits option.splits)
    note l1 = string_chars_length[OF k]
    show ?thesis
    proof (cases "skip_ws r1")
      case Nil
      then show ?thesis using p \<open>skip_ws s = c # cs\<close> c k by simp
    next
      case (Cons c2 r2)
      note l2 = skip_ws_Cons_length[OF Cons]
      from p \<open>skip_ws s = c # cs\<close> c k Cons obtain v r3 where c2: "c2 = 0x3A"
        and pv: "parse_value n r2 = Some (v, r3)"
        by (auto split: if_splits option.splits)
      note l3 = IHv[OF pv]
      show ?thesis
      proof (cases "skip_ws r3")
        case Nil
        then show ?thesis using p \<open>skip_ws s = c # cs\<close> c k \<open>skip_ws r1 = c2 # r2\<close> c2 pv by simp
      next
        case (Cons c3 r4)
        note l4 = skip_ws_Cons_length[OF Cons]
        show ?thesis
          using p \<open>skip_ws s = c # cs\<close> c k \<open>skip_ws r1 = c2 # r2\<close> c2 pv Cons l l1 l2 l3 l4
          by (auto split: if_splits dest!: IHm)
      qed
    qed
  qed
  show ?case using v e m by blast
qed


lemma parse_value_shrink: "parse_value n s = Some (v, r) \<Longrightarrow> length r < length s"
  using parse_shrink by blast


lemma fuel_value_step:
  assumes IHe: "\<And>s acc x F. parse_elements n s acc = Some x \<Longrightarrow> 2 * length s + 1 \<le> F \<Longrightarrow> parse_elements F s acc = Some x"
    and IHm: "\<And>s acc x F. parse_members n s acc = Some x \<Longrightarrow> 2 * length s + 1 \<le> F \<Longrightarrow> parse_members F s acc = Some x"
    and p: "parse_value (Suc n) s = Some x"
    and f: "2 * length s \<le> F"
  shows "parse_value F s = Some x"
proof (cases "skip_ws s")
  case Nil
  then show ?thesis using p by simp
next
  case (Cons c cs)
  note l = skip_ws_Cons_length[OF Cons]
  obtain F' where F: "F = Suc F'" using f l by (cases F) auto
  consider (obj) "c = 0x7B" | (arr) "c = 0x5B" "c \<noteq> 0x7B"
    | (other) "c \<noteq> 0x7B" "c \<noteq> 0x5B" by blast
  then show ?thesis
  proof cases
    case obj
    show ?thesis
    proof (cases "skip_ws cs")
      case Nil
      then show ?thesis using p Cons obj by simp
    next
      case (Cons c' cs')
      note l' = skip_ws_Cons_length[OF Cons]
      show ?thesis
      proof (cases "c' = 0x7D")
        case True
        then show ?thesis using p \<open>skip_ws s = c # cs\<close> obj Cons by (simp add: F)
      next
        case False
        then obtain y where y: "parse_members n (c' # cs') [] = Some y"
          using p \<open>skip_ws s = c # cs\<close> obj Cons by auto
        have "2 * length (c' # cs') + 1 \<le> F'" using f F l l' by simp
        from IHm[OF y this] show ?thesis
          using p y \<open>skip_ws s = c # cs\<close> obj Cons False by (simp add: F)
      qed
    qed
  next
    case arr
    show ?thesis
    proof (cases "skip_ws cs")
      case Nil
      then show ?thesis using p Cons arr by simp
    next
      case (Cons c' cs')
      note l' = skip_ws_Cons_length[OF Cons]
      show ?thesis
      proof (cases "c' = 0x5D")
        case True
        then show ?thesis using p \<open>skip_ws s = c # cs\<close> arr Cons by (simp add: F)
      next
        case False
        then obtain y where y: "parse_elements n (c' # cs') [] = Some y"
          using p \<open>skip_ws s = c # cs\<close> arr Cons by auto
        have "2 * length (c' # cs') + 1 \<le> F'" using f F l l' by simp
        from IHe[OF y this] show ?thesis
          using p y \<open>skip_ws s = c # cs\<close> arr Cons False by (simp add: F)
      qed
    qed
  next
    case other
    then show ?thesis using p Cons by (simp add: F)
  qed
qed

lemma fuel_elements_step:
  assumes IHv: "\<And>s x F. parse_value n s = Some x \<Longrightarrow> 2 * length s \<le> F \<Longrightarrow> parse_value F s = Some x"
    and IHe: "\<And>s acc x F. parse_elements n s acc = Some x \<Longrightarrow> 2 * length s + 1 \<le> F \<Longrightarrow> parse_elements F s acc = Some x"
    and p: "parse_elements (Suc n) s acc = Some x"
    and f: "2 * length s + 1 \<le> F"
  shows "parse_elements F s acc = Some x"
proof -
  obtain F' where F: "F = Suc F'" using f by (cases F) auto
  from p obtain v r1 where a: "parse_value n s = Some (v, r1)"
    by (auto split: option.splits)
  note l1 = parse_value_shrink[OF a]
  have a': "parse_value F' s = Some (v, r1)" using IHv[OF a] f F by simp
  show ?thesis
  proof (cases "skip_ws r1")
    case Nil
    then show ?thesis using p a by simp
  next
    case (Cons c r')
    note l2 = skip_ws_Cons_length[OF Cons]
    show ?thesis
    proof (cases "c = 0x2C")
      case True
      then have y: "parse_elements n r' (acc @ [v]) = Some x" using p a Cons by simp
      have "2 * length r' + 1 \<le> F'" using f F l1 l2 by simp
      from IHe[OF y this] show ?thesis using a' Cons True by (simp add: F)
    next
      case False
      then show ?thesis using p a a' Cons by (simp add: F)
    qed
  qed
qed

lemma fuel_members_step:
  assumes IHv: "\<And>s x F. parse_value n s = Some x \<Longrightarrow> 2 * length s \<le> F \<Longrightarrow> parse_value F s = Some x"
    and IHm: "\<And>s acc x F. parse_members n s acc = Some x \<Longrightarrow> 2 * length s + 1 \<le> F \<Longrightarrow> parse_members F s acc = Some x"
    and p: "parse_members (Suc n) s acc = Some x"
    and f: "2 * length s + 1 \<le> F"
  shows "parse_members F s acc = Some x"
proof (cases "skip_ws s")
  case Nil
  then show ?thesis using p by simp
next
  case (Cons c cs)
  note l = skip_ws_Cons_length[OF Cons]
  obtain F' where F: "F = Suc F'" using f by (cases F) auto
  from p Cons obtain key r1 where c: "c = 0x22" and k: "string_chars cs [] = Some (key, r1)"
    by (auto split: if_splits option.splits)
  note l1 = string_chars_length[OF k]
  show ?thesis
  proof (cases "skip_ws r1")
    case Nil
    then show ?thesis using p \<open>skip_ws s = c # cs\<close> c k by simp
  next
    case (Cons c2 r2)
    note l2 = skip_ws_Cons_length[OF Cons]
    from p \<open>skip_ws s = c # cs\<close> c k Cons obtain v r3 where c2: "c2 = 0x3A"
      and pv: "parse_value n r2 = Some (v, r3)"
      by (auto split: if_splits option.splits)
    note l3 = parse_value_shrink[OF pv]
    have pv': "parse_value F' r2 = Some (v, r3)" using IHv[OF pv] f F l l1 l2 by simp
    show ?thesis
    proof (cases "skip_ws r3")
      case Nil
      then show ?thesis using p \<open>skip_ws s = c # cs\<close> c k \<open>skip_ws r1 = c2 # r2\<close> c2 pv by simp
    next
      case (Cons c3 r4)
      note l4 = skip_ws_Cons_length[OF Cons]
      show ?thesis
      proof (cases "c3 = 0x2C")
        case True
        then have y: "parse_members n r4 (define_property acc key v) = Some x"
          using p \<open>skip_ws s = c # cs\<close> c k \<open>skip_ws r1 = c2 # r2\<close> c2 pv Cons by simp
        have "2 * length r4 + 1 \<le> F'" using f F l l1 l2 l3 l4 by simp
        from IHm[OF y this] show ?thesis
          using \<open>skip_ws s = c # cs\<close> c k \<open>skip_ws r1 = c2 # r2\<close> c2 pv' Cons True
          by (simp add: F)
      next
        case False
        then show ?thesis
          using p \<open>skip_ws s = c # cs\<close> c k \<open>skip_ws r1 = c2 # r2\<close> c2 pv pv' Cons
          by (simp add: F)
      qed
    qed
  qed
qed


text \<open>
  More fuel changes no result, once the fuel is twice the length of the text (plus one for
  elements and members).
\<close>

lemma parse_fuel:
  "(\<forall>s x F. parse_value n s = Some x \<longrightarrow> 2 * length s \<le> F \<longrightarrow> parse_value F s = Some x)
   \<and> (\<forall>s acc x F. parse_elements n s acc = Some x \<longrightarrow> 2 * length s + 1 \<le> F
          \<longrightarrow> parse_elements F s acc = Some x)
   \<and> (\<forall>s acc x F. parse_members n s acc = Some x \<longrightarrow> 2 * length s + 1 \<le> F
          \<longrightarrow> parse_members F s acc = Some x)"
proof (induction n)
  case 0
  show ?case by simp
next
  case (Suc n)
  note IHv = Suc[THEN conjunct1, rule_format]
  note IHe = Suc[THEN conjunct2, THEN conjunct1, rule_format]
  note IHm = Suc[THEN conjunct2, THEN conjunct2, rule_format]
  have v: "\<forall>s x F. parse_value (Suc n) s = Some x \<longrightarrow> 2 * length s \<le> F
             \<longrightarrow> parse_value F s = Some x"
    by (intro allI impI) (rule fuel_value_step[OF IHe IHm])
  have e: "\<forall>s acc x F. parse_elements (Suc n) s acc = Some x \<longrightarrow> 2 * length s + 1 \<le> F
          \<longrightarrow> parse_elements F s acc = Some x"
    by (intro allI impI) (rule fuel_elements_step[OF IHv IHe])
  have m: "\<forall>s acc x F. parse_members (Suc n) s acc = Some x \<longrightarrow> 2 * length s + 1 \<le> F
          \<longrightarrow> parse_members F s acc = Some x"
    by (intro allI impI) (rule fuel_members_step[OF IHv IHm])
  from v e m show ?case by (intro conjI)
qed

text \<open>The fuel of \<open>JSON_parse\<close> is enough: no other bound gives another value.\<close>

lemma JSON_parse_fuel:
  assumes "parse_value n s = Some x"
  shows "parse_value (Suc (2 * length s)) s = Some x"
  by (rule parse_fuel[THEN conjunct1, rule_format, OF assms]) simp

lemma JSON_parse_Inr_iff:
  "JSON_parse s = Inr v \<longleftrightarrow> (\<exists>n r. parse_value n s = Some (v, r) \<and> skip_ws r = [])"
proof
  assume a: "JSON_parse s = Inr v"
  show "\<exists>n r. parse_value n s = Some (v, r) \<and> skip_ws r = []"
  proof (cases "parse_value (Suc (2 * length s)) s")
    case None
    then show ?thesis using a by (simp only: JSON_parse_def option.case) simp
  next
    case (Some y)
    obtain w r where y: "y = (w, r)" by (cases y)
    have "skip_ws r = [] \<and> w = v"
      using a unfolding JSON_parse_def Some y by (simp split: if_splits)
    then show ?thesis using Some y by blast
  qed
next
  assume "\<exists>n r. parse_value n s = Some (v, r) \<and> skip_ws r = []"
  then obtain n r where n: "parse_value n s = Some (v, r)" and r: "skip_ws r = []" by blast
  show "JSON_parse s = Inr v"
    unfolding JSON_parse_def JSON_parse_fuel[OF n] by (simp add: r)
qed

section \<open>Properties of the adapter\<close>

subsection \<open>An invoice survives \<open>JSON.stringify\<close> and \<open>JSON.parse\<close>\<close>

lemma QuoteJSONString_Cons: "QuoteJSONString s = 0x22 # quote_chars s @ [0x22]"
  by (simp add: QuoteJSONString_def)

lemma parse_value_string:
  "parse_value (Suc n) (QuoteJSONString v @ rest) = Some (JString v, rest)"
  by (simp add: QuoteJSONString_Cons is_ws_def string_chars_quote_chars del: string_chars.simps)

lemma parse_members_string_more:
  "parse_members (Suc (Suc n)) (QuoteJSONString k @ 0x3A # QuoteJSONString v @ 0x2C # rest) acc
     = parse_members (Suc n) rest (define_property acc k (JString v))"
proof -
  have a: "string_chars (quote_chars k @ 0x22 # 0x3A # QuoteJSONString v @ 0x2C # rest) []
             = Some (k, 0x3A # QuoteJSONString v @ 0x2C # rest)"
    using string_chars_quote_chars[of k _ "[]"] by simp
  show ?thesis
    by (simp add: QuoteJSONString_Cons[of k] is_ws_def a parse_value_string
          del: string_chars.simps parse_value.simps)
qed

lemma parse_members_string_last:
  "parse_members (Suc (Suc n)) (QuoteJSONString k @ 0x3A # QuoteJSONString v @ 0x7D # rest) acc
     = Some (define_property acc k (JString v), rest)"
proof -
  have a: "string_chars (quote_chars k @ 0x22 # 0x3A # QuoteJSONString v @ 0x7D # rest) []
             = Some (k, 0x3A # QuoteJSONString v @ 0x7D # rest)"
    using string_chars_quote_chars[of k _ "[]"] by simp
  show ?thesis
    by (simp add: QuoteJSONString_Cons[of k] is_ws_def a parse_value_string
          del: string_chars.simps parse_value.simps)
qed


lemma parse_value_object_start:
  "parse_value (Suc n) (0x7B # QuoteJSONString k @ rest)
     = map_option (\<lambda>(ms, r). (JObject ms, r)) (parse_members n (QuoteJSONString k @ rest) [])"
  by (simp add: QuoteJSONString_Cons is_ws_def del: string_chars.simps)

lemma JSON_stringify_InvoiceData:
  "JSON_stringify (InvoiceData_object d)
     = 0x7B # QuoteJSONString (js ''title'') @ 0x3A # QuoteJSONString (title d) @ 0x2C #
              QuoteJSONString (js ''description'') @ 0x3A # QuoteJSONString (description d) @ 0x2C #
              QuoteJSONString (js ''issuedAt'') @ 0x3A # QuoteJSONString (issuedAt d) @ 0x2C #
              QuoteJSONString (js ''currency'') @ 0x3A # QuoteJSONString (currency d) @ [0x7D]"
  by (simp add: InvoiceData_object_def)

lemma InvoiceData_keys:
  "define_property (define_property (define_property (define_property []
     (js ''title'') a) (js ''description'') b) (js ''issuedAt'') c) (js ''currency'') e
   = [(js ''title'', a), (js ''description'', b), (js ''issuedAt'', c), (js ''currency'', e)]"
  by (simp add: js_def)

lemma parse_value_InvoiceData:
  "parse_value (Suc (Suc (Suc (Suc (Suc (Suc n)))))) (JSON_stringify (InvoiceData_object d))
     = Some (InvoiceData_object d, [])"
  unfolding JSON_stringify_InvoiceData
  by (simp only: parse_value_object_start parse_members_string_more
        parse_members_string_last InvoiceData_keys option.map prod.case InvoiceData_object_def)

lemma length_JSON_stringify_InvoiceData: "5 \<le> length (JSON_stringify (InvoiceData_object d))"
  by (simp add: JSON_stringify_InvoiceData QuoteJSONString_def)

lemma JSON_roundtrip_InvoiceData:
  "JSON_parse (JSON_stringify (InvoiceData_object d)) = Inr (InvoiceData_object d)"
proof -
  obtain m where "length (JSON_stringify (InvoiceData_object d)) = 5 + m"
    using length_JSON_stringify_InvoiceData[of d] le_Suc_ex by blast
  then have f: "Suc (2 * length (JSON_stringify (InvoiceData_object d)))
               = Suc (Suc (Suc (Suc (Suc (Suc (2 * m + 5))))))"
    by simp
  show ?thesis
    unfolding JSON_parse_def f parse_value_InvoiceData by simp
qed

subsection \<open>\<open>toHex\<close> is injective\<close>

lemma of_char_hex_char: "n < 16 \<Longrightarrow> (of_char (hex_char n) :: nat) = (if n < 10 then 48 + n else 87 + n)"
  by (simp add: hex_char_def)

lemma hex_char_inj:
  assumes "n < 16" "m < 16" "hex_char n = hex_char m"
  shows "n = m"
proof -
  have "(of_char (hex_char n) :: nat) = of_char (hex_char m)" using assms(3) by simp
  then show ?thesis using assms(1,2) by (simp add: of_char_hex_char split: if_splits)
qed

lemma byte_hex_inj:
  fixes x y :: "8 word"
  assumes "hex_char (unat x div 16) = hex_char (unat y div 16)"
    and "hex_char (unat x mod 16) = hex_char (unat y mod 16)"
  shows "x = y"
proof -
  have bx: "unat x < 256" using unsigned_less[of x, where 'a = nat] by simp
  have by': "unat y < 256" using unsigned_less[of y, where 'a = nat] by simp
  have d: "unat x div 16 = unat y div 16"
    using assms(1) bx by' by (intro hex_char_inj) (simp_all add: div_less_iff_less_mult)
  have m: "unat x mod 16 = unat y mod 16"
    using assms(2) by (intro hex_char_inj) simp_all
  have "unat x = unat y"
    using d m by (metis div_mult_mod_eq)
  then show ?thesis by (simp add: word_unat_eq_iff)
qed

lemma toHex_inj: "toHex a = toHex b \<Longrightarrow> a = b"
proof (induction a arbitrary: b)
  case Nil
  then show ?case by (cases b) (simp_all add: toHex_def)
next
  case (Cons x xs)
  show ?case
  proof (cases b)
    case Nil
    then show ?thesis using Cons.prems by (simp add: toHex_def)
  next
    case (Cons y ys)
    have "x = y" and "toHex xs = toHex ys"
      using Cons.prems Cons by (simp_all add: toHex_def byte_hex_inj)
    then show ?thesis using Cons.IH Cons by simp
  qed
qed

lemma toHex_eq_iff: "toHex a = toHex b \<longleftrightarrow> a = b"
  using toHex_inj by blast

subsection \<open>The projection and the stream\<close>

text \<open>What \<open>invoiceData\<close> the projection gives for a ledger state.\<close>

lemma deriveState_result:
  assumes "deriveState ext api l p = (Inr d, api')"
  shows "\<exists>ps sequenceBytes key.
           p = Some ps
         \<and> convert_bigint_to_Uint8Array ext 32 (Ledger.sequence l) = Inr sequenceBytes
         \<and> buyerKey ext (secretKey ps) sequenceBytes = Inr key
         \<and> InvoiceDerivedState.state d = Ledger.state l
         \<and> InvoiceDerivedState.sequence d = Ledger.sequence l
         \<and> InvoiceDerivedState.amount d = Ledger.amount l
         \<and> canPay d = (key = buyerPk l)
         \<and> InvoiceDerivedState.transactionHistory d = InvoiceAPI.transactionHistory api
         \<and> InvoiceDerivedState.invoiceData d
             = (if Maybe_string.value (invoiceJson l) = [] then None
                else case JSON_parse (Maybe_string.value (invoiceJson l)) of
                       Inr v \<Rightarrow> Some v | Inl e \<Rightarrow> None)
         \<and> api' = (if Maybe_string.value (invoiceJson l) = [] then api
                    else case JSON_parse (Maybe_string.value (invoiceJson l)) of
                       Inr v \<Rightarrow> api
                     | Inl e \<Rightarrow> api\<lparr>logger := log (ErrorLog ''Failed to parse invoice JSON'' e) (logger api)\<rparr>)"
  using assms
  by (auto simp: deriveState_def Let_def toHex_eq_iff split: option.splits sum.splits if_splits)

lemma deriveState_no_throw_from_parse:
  "isl (fst (deriveState ext api l p))
     = (case p of None \<Rightarrow> True
        | Some ps \<Rightarrow> (case convert_bigint_to_Uint8Array ext 32 (Ledger.sequence l) of
                        Inl e \<Rightarrow> True
                      | Inr sb \<Rightarrow> isl (buyerKey ext (secretKey ps) sb)))"
  by (auto simp: deriveState_def Let_def split: option.splits sum.splits if_splits)

lemma emit_lookup: "privateStateLookup (this (emit ext w)) = privateStateLookup (this w)"
  by (auto simp: emit_def deriveState_def Let_def split: option.splits sum.splits if_splits prod.splits)

lemma emit_latest:
  "latestPrivate (emit ext w) = latestPrivate w" "latestLedger (emit ext w) = latestLedger w"
  "privateStateStore (emit ext w) = privateStateStore w"
  by (auto simp: emit_def split: option.splits sum.splits prod.splits)

lemma emit_received_empty:
  "latestLedger w = None \<or> latestPrivate w = None \<Longrightarrow> emit ext w = w"
  by (auto simp: emit_def split: option.splits)

lemma ops_lookup:
  "privateStateLookup (snd (issueInvoice api a d c n)) = privateStateLookup api"
  "privateStateLookup (snd (payInvoice api o1 n)) = privateStateLookup api"
  "privateStateLookup (snd (resetInvoice api o1 n)) = privateStateLookup api"
  by (auto simp: issueInvoice_def payInvoice_def resetInvoice_def Let_def split: sum.splits)

lemma lookup_inv_step: "lookup_inv v w \<Longrightarrow> lookup_inv v (api_step ext e w)"
proof (cases e)
  case (LedgerState l)
  assume a: "lookup_inv v w"
  show ?thesis
  proof (cases "closed w")
    case True
    then show ?thesis using a LedgerState by simp
  next
    case False
    let ?w1 = "w\<lparr>this := (this w)\<lparr>logger := log (Trace ''ledgerStateChanged'') (logger (this w))\<rparr>,
                       latestLedger := Some l\<rparr>"
    have s: "api_step ext e w = emit ext ?w1" using False LedgerState by simp
    show ?thesis
    proof (cases "latestPrivate w")
      case None
      then have "emit ext ?w1 = ?w1" by (intro emit_received_empty) simp
      then show ?thesis using a None by (auto simp: s lookup_inv_def)
    next
      case (Some pv)
      then show ?thesis using a
        by (auto simp: s lookup_inv_def emit_lookup emit_latest)
    qed
  qed
next
  case PrivateStateResolved
  assume a: "lookup_inv v w"
  show ?thesis
  proof (cases "closed w \<or> latestPrivate w \<noteq> None")
    case True
    then show ?thesis using a PrivateStateResolved by auto
  next
    case False
    let ?w1 = "w\<lparr>latestPrivate := Some (privateStateLookup (this w))\<rparr>"
    have s: "api_step ext e w = emit ext ?w1" using False PrivateStateResolved by simp
    show ?thesis
    proof (cases "latestLedger w")
      case None
      then have "emit ext ?w1 = ?w1" by (intro emit_received_empty) simp
      then show ?thesis using a None by (auto simp: s lookup_inv_def)
    next
      case (Some l)
      then show ?thesis using a
        by (auto simp: s lookup_inv_def emit_lookup emit_latest)
    qed
  qed
next
  case (PrivateStateSet ps)
  assume "lookup_inv v w"
  then show ?thesis using PrivateStateSet by (simp add: lookup_inv_def)
next
  case (IssueInvoice a d out n)
  assume "lookup_inv v w"
  then show ?thesis using IssueInvoice by (simp add: lookup_inv_def ops_lookup)
next
  case (PayInvoice out n)
  assume "lookup_inv v w"
  then show ?thesis using PayInvoice by (simp add: lookup_inv_def ops_lookup)
next
  case (ResetInvoice out n)
  assume "lookup_inv v w"
  then show ?thesis using ResetInvoice by (simp add: lookup_inv_def ops_lookup)
qed

lemma lookup_inv_run: "lookup_inv v w \<Longrightarrow> lookup_inv v (api_run ext es w)"
  by (induction es arbitrary: w) (auto simp: lookup_inv_step)

lemma lookup_inv_new:
  "lookup_inv (store invoicePrivateStateKey) (new_Adapter a store lg)"
  by (simp add: lookup_inv_def new_Adapter_def new_InvoiceAPI_def)

lemma emit_Next:
  assumes "received (emit ext w) = received w @ [Next d]"
  shows "\<exists>l p api'. latestLedger w = Some l \<and> latestPrivate w = Some p
           \<and> deriveState ext (this w) l p = (Inr d, api')"
  using assms
  by (auto simp: emit_def split: option.splits sum.splits prod.splits)

lemma step_Next:
  assumes "received (api_step ext ev w) = received w @ [Next d]"
  shows "\<exists>l p api0 api'. latestLedger (api_step ext ev w) = Some l
           \<and> latestPrivate (api_step ext ev w) = Some p
           \<and> (latestPrivate w = Some p \<or> p = privateStateLookup (this w))
           \<and> InvoiceAPI.transactionHistory api0 = InvoiceAPI.transactionHistory (this w)
           \<and> deriveState ext api0 l p = (Inr d, api')"
proof (cases ev)
  case (LedgerState l)
  show ?thesis
  proof (cases "closed w")
    case True
    then show ?thesis using assms LedgerState by simp
  next
    case False
    let ?w1 = "w\<lparr>this := (this w)\<lparr>logger := log (Trace ''ledgerStateChanged'') (logger (this w))\<rparr>,
                       latestLedger := Some l\<rparr>"
    have s: "api_step ext ev w = emit ext ?w1" using False LedgerState by simp
    have "received (emit ext ?w1) = received ?w1 @ [Next d]" using assms s by simp
    from emit_Next[OF this] obtain p api' where
      "latestPrivate w = Some p" "deriveState ext (this ?w1) l p = (Inr d, api')" by auto
    then show ?thesis
      by (intro exI[of _ l] exI[of _ p] exI[of _ "this ?w1"] exI[of _ api'])
         (simp add: s emit_latest)
  qed
next
  case PrivateStateResolved
  show ?thesis
  proof (cases "closed w \<or> latestPrivate w \<noteq> None")
    case True
    then show ?thesis using assms PrivateStateResolved by auto
  next
    case False
    let ?w1 = "w\<lparr>latestPrivate := Some (privateStateLookup (this w))\<rparr>"
    have s: "api_step ext ev w = emit ext ?w1" using False PrivateStateResolved by simp
    have "received (emit ext ?w1) = received ?w1 @ [Next d]" using assms s by simp
    from emit_Next[OF this] obtain l api' where
      "latestLedger w = Some l" "deriveState ext (this w) l (privateStateLookup (this w)) = (Inr d, api')"
      by auto
    then show ?thesis
      by (intro exI[of _ l] exI[of _ "privateStateLookup (this w)"] exI[of _ "this w"] exI[of _ api'])
         (simp add: s emit_latest)
  qed
next
  case (PrivateStateSet ps)
  then show ?thesis using assms by simp
next
  case (IssueInvoice a d' out n)
  then show ?thesis using assms by simp
next
  case (PayInvoice out n)
  then show ?thesis using assms by simp
next
  case (ResetInvoice out n)
  then show ?thesis using assms by simp
qed

lemma step_latestLedger: "\<not> is_LedgerState e \<Longrightarrow> latestLedger (api_step ext e w) = latestLedger w"
  by (cases e) (auto simp: emit_latest)

lemma step_latestPrivate: "e \<noteq> PrivateStateResolved \<Longrightarrow> latestPrivate (api_step ext e w) = latestPrivate w"
  by (cases e) (auto simp: emit_latest)

lemma run_latestLedger:
  "\<forall>e \<in> set evs. \<not> is_LedgerState e \<Longrightarrow> latestLedger (api_run ext evs w) = latestLedger w"
  by (induction evs arbitrary: w) (auto simp: step_latestLedger)

lemma run_latestPrivate:
  "PrivateStateResolved \<notin> set evs \<Longrightarrow> latestPrivate (api_run ext evs w) = latestPrivate w"
  by (induction evs arbitrary: w) (auto simp: step_latestPrivate)

lemma emit_same: "same_but_store w w' \<Longrightarrow> same_but_store (emit ext w) (emit ext w')"
  by (auto simp: same_but_store_def emit_def split: option.splits sum.splits prod.splits)

lemma step_same:
  assumes "same_but_store w w'"
  shows "same_but_store (api_step ext e w) (api_step ext e w')"
proof (cases e)
  case (LedgerState l)
  have "same_but_store
          (w\<lparr>this := (this w)\<lparr>logger := log (Trace ''ledgerStateChanged'') (logger (this w))\<rparr>,
             latestLedger := Some l\<rparr>)
          (w'\<lparr>this := (this w')\<lparr>logger := log (Trace ''ledgerStateChanged'') (logger (this w'))\<rparr>,
             latestLedger := Some l\<rparr>)"
    using assms by (simp add: same_but_store_def)
  from emit_same[OF this] show ?thesis
    using assms LedgerState by (auto simp: same_but_store_def)
next
  case PrivateStateResolved
  have "same_but_store (w\<lparr>latestPrivate := Some (privateStateLookup (this w))\<rparr>)
          (w'\<lparr>latestPrivate := Some (privateStateLookup (this w'))\<rparr>)"
    using assms by (simp add: same_but_store_def)
  from emit_same[OF this] show ?thesis
    using assms PrivateStateResolved by (auto simp: same_but_store_def)
qed (use assms in \<open>auto simp: same_but_store_def\<close>)

lemma step_set_same: "is_PrivateStateSet e \<Longrightarrow> same_but_store (api_step ext e w) w"
  by (cases e) (auto simp: same_but_store_def)

lemma same_but_store_trans:
  "same_but_store a b \<Longrightarrow> same_but_store b c \<Longrightarrow> same_but_store a c"
  by (simp add: same_but_store_def)

lemma same_but_store_sym: "same_but_store a b \<Longrightarrow> same_but_store b a"
  by (simp add: same_but_store_def)

lemma run_same:
  "same_but_store w w' \<Longrightarrow>
     same_but_store (api_run ext (filter (\<lambda>e. \<not> is_PrivateStateSet e) evs) w) (api_run ext evs w')"
proof (induction evs arbitrary: w w')
  case Nil
  then show ?case by simp
next
  case (Cons e evs)
  show ?case
  proof (cases "is_PrivateStateSet e")
    case True
    have "same_but_store w (api_step ext e w')"
      using Cons.prems step_set_same[OF True, of ext w']
      by (meson same_but_store_sym same_but_store_trans)
    from Cons.IH[OF this] show ?thesis using True by simp
  next
    case False
    from Cons.IH[OF step_same[OF Cons.prems, of ext e]] show ?thesis using False by simp
  qed
qed

lemma history_step:
  "\<exists>suffix. InvoiceAPI.transactionHistory (this (api_step ext e w))
             = InvoiceAPI.transactionHistory (this w) @ suffix"
  by (cases e)
     (auto simp: emit_def deriveState_def issueInvoice_def payInvoice_def resetInvoice_def Let_def
           split: option.splits sum.splits prod.splits if_splits)

lemma history_run:
  "\<exists>suffix. InvoiceAPI.transactionHistory (this (api_run ext evs w))
             = InvoiceAPI.transactionHistory (this w) @ suffix"
proof (induction evs arbitrary: w)
  case Nil
  show ?case by simp
next
  case (Cons e evs)
  from history_step[of ext e w] obtain s1 where
    "InvoiceAPI.transactionHistory (this (api_step ext e w)) = InvoiceAPI.transactionHistory (this w) @ s1"
    by blast
  moreover from Cons[of "api_step ext e w"] obtain s2 where
    "InvoiceAPI.transactionHistory (this (api_run ext evs (api_step ext e w)))
       = InvoiceAPI.transactionHistory (this (api_step ext e w)) @ s2" by blast
  ultimately show ?case by simp
qed

lemma JSON_stringify_InvoiceData_nonempty: "JSON_stringify (InvoiceData_object d) \<noteq> []"
  by (simp add: JSON_stringify_InvoiceData)

lemma step_LedgerState_latest:
  assumes "received (api_step ext (LedgerState l) w) = received w @ [Next d]"
  shows "latestLedger (api_step ext (LedgerState l) w) = Some l"
proof (cases "closed w")
  case True
  then show ?thesis using assms by simp
next
  case False
  then show ?thesis by (simp add: emit_latest)
qed

subsection \<open>Concrete runs\<close>

lemma example_emission:
  "received (api_step example_collaborators (LedgerState (example_ledger []))
      (api_run example_collaborators [PrivateStateResolved] example_adapter))
   = received (api_run example_collaborators [PrivateStateResolved] example_adapter) @
     [Next \<lparr>InvoiceDerivedState.state = ISSUED, InvoiceDerivedState.sequence = 1,
        InvoiceDerivedState.amount = 100, InvoiceDerivedState.invoiceData = None,
        canPay = True, InvoiceDerivedState.transactionHistory = []\<rparr>]"
  by code_simp

lemma example_truncated_JSON:
  "deriveState example_collaborators (new_InvoiceAPI ''0200a1'' example_store (Some []))
     (example_ledger (js ''{'')) (Some example_private_state)
   = (Inr \<lparr>InvoiceDerivedState.state = ISSUED, InvoiceDerivedState.sequence = 1,
        InvoiceDerivedState.amount = 100, InvoiceDerivedState.invoiceData = None,
        canPay = True, InvoiceDerivedState.transactionHistory = []\<rparr>,
      \<lparr>InvoiceAPI.deployedContractAddress = ''0200a1'', InvoiceAPI.transactionHistory = [],
        logger = Some [ErrorLog ''Failed to parse invoice JSON'' SyntaxError],
        privateStateLookup = Some example_private_state\<rparr>)"
  by code_simp

lemma example_roundtrip_run:
  "received (api_step example_collaborators
      (LedgerState (example_ledger (JSON_stringify (InvoiceData_object example_invoice))))
      (api_run example_collaborators [PrivateStateResolved] example_adapter))
   = received (api_run example_collaborators [PrivateStateResolved] example_adapter) @
     [Next \<lparr>InvoiceDerivedState.state = ISSUED, InvoiceDerivedState.sequence = 1,
        InvoiceDerivedState.amount = 100,
        InvoiceDerivedState.invoiceData =
          Some (JObject [(js ''title'', JString (js ''T'')), (js ''description'', JString (js ''D'')),
                         (js ''issuedAt'', JString (js ''2025-01-01'')),
                         (js ''currency'', JString (js ''NIGHT''))]),
        canPay = True, InvoiceDerivedState.transactionHistory = []\<rparr>]"
  by code_simp

section \<open>The claims about the deployment registry\<close>

text \<open>
  Claim C2, as amended. Once a deployment for an address has reached the deployed status,
  every later \<open>resolve\<close> of that address returns a deployment that is registered already
  and deployed at that address, and leaves the manager as it is: nothing is created or
  appended. The deployment returned is the first one in the array that is deployed at the
  address, so it is never a later one than the one known to be deployed; and when every
  deployment registered before that one had finished already, it is the very deployment that
  \<open>resolve\<close> returned at the start.
\<close>

theorem resolve_deployed_address:
  assumes "m = run evs new_manager"
    and "i < length (invoiceDeployments m)"
    and "value (invoiceDeployments m ! i) = Deployed api"
    and "deployedContractAddress api = addr"
  shows "\<exists>k api'. resolve (Some addr) (run evs' m) = (k, run evs' m)
           \<and> k \<le> i
           \<and> value (invoiceDeployments (run evs' m) ! k) = Deployed api'
           \<and> deployedContractAddress api' = addr
           \<and> ((\<forall>j < i. tasks m ! j = Finished) \<longrightarrow> resolve (Some addr) m = (k, m))"
proof -
  let ?m' = "run evs' m"
  let ?P = "isDeployedAt (Some addr)"
  have im: "inv m" using assms(1) inv_run[OF inv_new] by simp
  have im': "inv ?m'" using im by (rule inv_run)
  have fin: "tasks m ! i = Finished" using deployed_finished[OF im assms(2,3)] .
  from run_finished[OF im assms(2) fin, of evs']
  have i': "i < length (invoiceDeployments ?m')"
    and same: "invoiceDeployments ?m' ! i = invoiceDeployments m ! i" by auto
  have Pi: "?P (invoiceDeployments ?m' ! i)" using same assms(3,4) by simp
  from find_from_exists[of i "invoiceDeployments ?m'" ?P, OF i' Pi]
  obtain k where k: "k \<le> i" "find_from ?P (invoiceDeployments ?m') 0 = Some k" by blast
  from find_from_Some[OF k(2)]
  have Pk: "?P (invoiceDeployments ?m' ! k)" and least: "\<forall>j < k. \<not> ?P (invoiceDeployments ?m' ! j)"
    by auto
  from Pk obtain api' where api': "value (invoiceDeployments ?m' ! k) = Deployed api'"
    "deployedContractAddress api' = addr"
    by (auto split: InvoiceDeployment.splits)
  have stable: "resolve (Some addr) m = (k, m)" if allfin: "\<forall>j < i. tasks m ! j = Finished"
  proof -
    have eq: "invoiceDeployments ?m' ! j = invoiceDeployments m ! j" if "j \<le> i" for j
    proof (cases "j = i")
      case True
      then show ?thesis using same by simp
    next
      case False
      then have "j < i" using that by simp
      then have "tasks m ! j = Finished" "j < length (invoiceDeployments m)"
        using allfin assms(2) by auto
      from run_finished[OF im this(2) this(1), of evs'] show ?thesis by simp
    qed
    have "find_from ?P (invoiceDeployments m) 0 = Some k"
    proof (rule find_from_least)
      show "k < length (invoiceDeployments m)" using k(1) assms(2) by simp
      show "?P (invoiceDeployments m ! k)" using Pk eq[OF k(1)] by simp
      show "\<forall>j < k. \<not> ?P (invoiceDeployments m ! j)"
        using least eq k(1) by (metis less_imp_le_nat order.strict_trans2)
    qed
    then show ?thesis by (rule resolve_found)
  qed
  show ?thesis
    using resolve_found[OF k(2)] k(1) api' stable by blast
qed

text \<open>
  The theorem at a concrete run: an address is joined, the join succeeds, and a second
  \<open>resolve\<close> of the address returns deployment 0 and appends nothing.
\<close>

theorem resolve_deployed_address_witness:
  "resolve (Some ''0200a1'')
     (run [Resolve (Some ''0200a1'')]
       (run [Resolve (Some ''0200a1''), ProvidersSettled 0 (Inr (InvoiceProviders 0)),
             ApiSettled 0 (Inr \<lparr>deployedContractAddress = ''0200a1''\<rparr>)] new_manager))
   = (0, run [Resolve (Some ''0200a1'')]
       (run [Resolve (Some ''0200a1''), ProvidersSettled 0 (Inr (InvoiceProviders 0)),
             ApiSettled 0 (Inr \<lparr>deployedContractAddress = ''0200a1''\<rparr>)] new_manager))
   \<and> length (invoiceDeployments (run [Resolve (Some ''0200a1'')]
       (run [Resolve (Some ''0200a1''), ProvidersSettled 0 (Inr (InvoiceProviders 0)),
             ApiSettled 0 (Inr \<lparr>deployedContractAddress = ''0200a1''\<rparr>)] new_manager))) = 1"
proof -
  let ?m = "run [Resolve (Some ''0200a1''), ProvidersSettled 0 (Inr (InvoiceProviders 0)),
             ApiSettled 0 (Inr \<lparr>deployedContractAddress = ''0200a1''\<rparr>)] new_manager"
  have v: "value (invoiceDeployments ?m ! 0) = Deployed \<lparr>deployedContractAddress = ''0200a1''\<rparr>"
    and l: "0 < length (invoiceDeployments ?m)"
    by (simp_all add: new_manager_def resolve_def truthy_def joinDeployment_def startDeployment_def
          getProviders_def initializeProviders_def new_BehaviorSubject_def next_def Let_def)
  have a: "deployedContractAddress \<lparr>deployedContractAddress = ''0200a1''\<rparr> = ''0200a1''" by simp
  from resolve_deployed_address[OF refl l v a, of "[Resolve (Some ''0200a1'')]"]
  obtain k where "resolve (Some ''0200a1'') (run [Resolve (Some ''0200a1'')] ?m)
      = (k, run [Resolve (Some ''0200a1'')] ?m)" "k \<le> 0"
    by blast
  moreover have "length (invoiceDeployments (run [Resolve (Some ''0200a1'')] ?m)) = 1"
    by (simp add: new_manager_def resolve_def truthy_def joinDeployment_def startDeployment_def
          getProviders_def initializeProviders_def new_BehaviorSubject_def next_def Let_def)
  ultimately show ?thesis by simp
qed

text \<open>
  Claim C2 as stated fails. Two \<open>resolve\<close> calls for one address, made before either join
  has finished, create two deployments. When the second join finishes first, \<open>resolve\<close>
  returns deployment 1; when the first has finished as well, \<open>resolve\<close> returns
  deployment 0, and the registry holds two deployments deployed at the same address.
\<close>

theorem resolve_concurrent_duplicates:
  "fst (resolve (Some ''0200a1'')
      (run [Resolve (Some ''0200a1''), Resolve (Some ''0200a1''),
            ProvidersSettled 0 (Inr (InvoiceProviders 0)),
            ApiSettled 1 (Inr \<lparr>deployedContractAddress = ''0200a1''\<rparr>)] new_manager)) = 1
   \<and> fst (resolve (Some ''0200a1'')
      (run [Resolve (Some ''0200a1''), Resolve (Some ''0200a1''),
            ProvidersSettled 0 (Inr (InvoiceProviders 0)),
            ApiSettled 1 (Inr \<lparr>deployedContractAddress = ''0200a1''\<rparr>),
            ApiSettled 0 (Inr \<lparr>deployedContractAddress = ''0200a1''\<rparr>)] new_manager)) = 0
   \<and> map value (invoiceDeployments
      (run [Resolve (Some ''0200a1''), Resolve (Some ''0200a1''),
            ProvidersSettled 0 (Inr (InvoiceProviders 0)),
            ApiSettled 1 (Inr \<lparr>deployedContractAddress = ''0200a1''\<rparr>),
            ApiSettled 0 (Inr \<lparr>deployedContractAddress = ''0200a1''\<rparr>)] new_manager))
     = [Deployed \<lparr>deployedContractAddress = ''0200a1''\<rparr>,
        Deployed \<lparr>deployedContractAddress = ''0200a1''\<rparr>]"
  by (simp add: new_manager_def resolve_def truthy_def joinDeployment_def startDeployment_def
        getProviders_def initializeProviders_def new_BehaviorSubject_def next_def Let_def)

text \<open>
  Claim C4. In every state the manager can reach, a deployment has either delivered only
  the in-progress value, its async function being suspended still, or it has delivered the
  in-progress value and then exactly one terminal value, its async function having
  finished; a finished deployment is the same in every later state. The transition happens
  when the awaited promise settles: a fulfilled \<open>InvoiceAPI.deploy\<close> / \<open>InvoiceAPI.join\<close>
  gives the deployed status; a rejection there, or of the provider bundle, gives the failed
  status with the causing error. The error of the failed status is given in two cases:
  a thrown \<open>Error\<close> object is kept as it is, and a thrown value that is no \<open>Error\<close> becomes
  a new \<open>Error\<close> whose message is the value as a string (\<open>undefined\<close>, \<open>null\<close>, \<open>true\<close>,
  \<open>false\<close>, or the string itself), for the thrown values of the model. The failure is a
  value delivered by the subject (a \<open>Next\<close> notification); \<open>resolve\<close> and \<open>step\<close> have no
  error result.
\<close>

theorem deployment_lifecycle:
  assumes "m = run evs new_manager"
    and "i < length (invoiceDeployments m)"
  shows "(tasks m ! i \<noteq> Finished
            \<and> value (invoiceDeployments m ! i) = InProgress
            \<and> delivered (invoiceDeployments m ! i) = [Next InProgress]
          \<or> tasks m ! i = Finished
            \<and> terminal (value (invoiceDeployments m ! i))
            \<and> delivered (invoiceDeployments m ! i)
                = [Next InProgress, Next (value (invoiceDeployments m ! i))])
         \<and> (tasks m ! i = Finished
              \<longrightarrow> invoiceDeployments (run evs' m) ! i = invoiceDeployments m ! i)
         \<and> (\<forall>j api. tasks m ! i = AwaitApi j
              \<longrightarrow> invoiceDeployments (step (ApiSettled i (Inr api)) m) ! i
                    = \<lparr>value = Deployed api, delivered = [Next InProgress, Next (Deployed api)]\<rparr>
                  \<and> tasks (step (ApiSettled i (Inr api)) m) ! i = Finished)
         \<and> (\<forall>j error. tasks m ! i = AwaitApi j
              \<longrightarrow> invoiceDeployments (step (ApiSettled i (Inl error)) m) ! i
                    = \<lparr>value = Failed (toError error),
                       delivered = [Next InProgress, Next (Failed (toError error))]\<rparr>
                  \<and> tasks (step (ApiSettled i (Inl error)) m) ! i = Finished)
         \<and> (\<forall>p j error. tasks m ! i = AwaitProviders p j
              \<longrightarrow> invoiceDeployments (step (ProvidersSettled p (Inl error)) m) ! i
                    = \<lparr>value = Failed (toError error),
                       delivered = [Next InProgress, Next (Failed (toError error))]\<rparr>
                  \<and> tasks (step (ProvidersSettled p (Inl error)) m) ! i = Finished)
         \<and> (\<forall>p j providers. tasks m ! i = AwaitProviders p j
              \<longrightarrow> invoiceDeployments (step (ProvidersSettled p (Inr providers)) m) ! i
                    = invoiceDeployments m ! i
                  \<and> tasks (step (ProvidersSettled p (Inr providers)) m) ! i = AwaitApi j)
         \<and> (\<forall>j e. tasks m ! i = AwaitApi j
              \<longrightarrow> value (invoiceDeployments (step (ApiSettled i (Inl (ThrownError e))) m) ! i)
                    = Failed e)
         \<and> (\<forall>j v. tasks m ! i = AwaitApi j
              \<longrightarrow> value (invoiceDeployments (step (ApiSettled i (Inl (ThrownValue v))) m) ! i)
                    = Failed (Error (case v of JsUndefined \<Rightarrow> ''undefined''
                                      | JsNull \<Rightarrow> ''null''
                                      | JsBoolean b \<Rightarrow> (if b then ''true'' else ''false'')
                                      | JsString s \<Rightarrow> s)))
         \<and> (\<forall>p j e. tasks m ! i = AwaitProviders p j
              \<longrightarrow> value (invoiceDeployments (step (ProvidersSettled p (Inl (ThrownError e))) m) ! i)
                    = Failed e)
         \<and> (\<forall>p j v. tasks m ! i = AwaitProviders p j
              \<longrightarrow> value (invoiceDeployments (step (ProvidersSettled p (Inl (ThrownValue v))) m) ! i)
                    = Failed (Error (case v of JsUndefined \<Rightarrow> ''undefined''
                                      | JsNull \<Rightarrow> ''null''
                                      | JsBoolean b \<Rightarrow> (if b then ''true'' else ''false'')
                                      | JsString s \<Rightarrow> s)))"
proof -
  have im: "inv m" using assms(1) inv_run[OF inv_new] by simp
  have len: "length (invoiceDeployments m) = length (tasks m)"
    using im by (auto simp: inv_def dest: list_all2_lengthD)
  have so: "slot_ok (invoiceDeployments m ! i) (tasks m ! i)"
    using im assms(2) by (auto simp: inv_def list_all2_conv_all_nth)
  have a: "tasks m ! i \<noteq> Finished
            \<and> value (invoiceDeployments m ! i) = InProgress
            \<and> delivered (invoiceDeployments m ! i) = [Next InProgress]
          \<or> tasks m ! i = Finished
            \<and> terminal (value (invoiceDeployments m ! i))
            \<and> delivered (invoiceDeployments m ! i)
                = [Next InProgress, Next (value (invoiceDeployments m ! i))]"
    using so by (auto simp: slot_ok_def split: if_splits)
  have b: "invoiceDeployments (run evs' m) ! i = invoiceDeployments m ! i"
    if "tasks m ! i = Finished"
    using run_finished[OF im assms(2) that, of evs'] by simp
  have c: "invoiceDeployments (step (ApiSettled i (Inr api)) m) ! i
                    = \<lparr>value = Deployed api, delivered = [Next InProgress, Next (Deployed api)]\<rparr>
                  \<and> tasks (step (ApiSettled i (Inr api)) m) ! i = Finished"
    if "tasks m ! i = AwaitApi j" for j api
    using that so assms(2) len by (simp add: slot_ok_def next_def)
  have d: "invoiceDeployments (step (ApiSettled i (Inl error)) m) ! i
                    = \<lparr>value = Failed (toError error),
                       delivered = [Next InProgress, Next (Failed (toError error))]\<rparr>
                  \<and> tasks (step (ApiSettled i (Inl error)) m) ! i = Finished"
    if "tasks m ! i = AwaitApi j" for j error
    using that so assms(2) len by (simp add: slot_ok_def next_def)
  have aw: "p = 0 \<and> promises m = [None]" if "tasks m ! i = AwaitProviders p j" for p j
    using that im assms(2) len
    by (auto simp: inv_def list_all_iff awaits_cached_def all_set_conv_all_nth)
  have e: "invoiceDeployments (step (ProvidersSettled p (Inl error)) m) ! i
                    = \<lparr>value = Failed (toError error),
                       delivered = [Next InProgress, Next (Failed (toError error))]\<rparr>
                  \<and> tasks (step (ProvidersSettled p (Inl error)) m) ! i = Finished"
    if "tasks m ! i = AwaitProviders p j" for p j error
    using that aw[OF that] so assms(2) len by (simp add: slot_ok_def next_def Let_def)
  have f: "invoiceDeployments (step (ProvidersSettled p (Inr providers)) m) ! i
                    = invoiceDeployments m ! i
                  \<and> tasks (step (ProvidersSettled p (Inr providers)) m) ! i = AwaitApi j"
    if "tasks m ! i = AwaitProviders p j" for p j providers
    using that aw[OF that] so assms(2) len by (simp add: Let_def)
  have g: "value (invoiceDeployments (step (ApiSettled i (Inl (ThrownError err))) m) ! i)
             = Failed err"
    if "tasks m ! i = AwaitApi j" for j err
    using d[OF that, of "ThrownError err"] by simp
  have h: "value (invoiceDeployments (step (ApiSettled i (Inl (ThrownValue v))) m) ! i)
             = Failed (Error (case v of JsUndefined \<Rightarrow> ''undefined''
                               | JsNull \<Rightarrow> ''null''
                               | JsBoolean b \<Rightarrow> (if b then ''true'' else ''false'')
                               | JsString s \<Rightarrow> s))"
    if "tasks m ! i = AwaitApi j" for j v
    using d[OF that, of "ThrownValue v"] by (cases v) simp_all
  have k: "value (invoiceDeployments (step (ProvidersSettled p (Inl (ThrownError err))) m) ! i)
             = Failed err"
    if "tasks m ! i = AwaitProviders p j" for p j err
    using e[OF that, of "ThrownError err"] by simp
  have l: "value (invoiceDeployments (step (ProvidersSettled p (Inl (ThrownValue v))) m) ! i)
             = Failed (Error (case v of JsUndefined \<Rightarrow> ''undefined''
                               | JsNull \<Rightarrow> ''null''
                               | JsBoolean b \<Rightarrow> (if b then ''true'' else ''false'')
                               | JsString s \<Rightarrow> s))"
    if "tasks m ! i = AwaitProviders p j" for p j v
    using e[OF that, of "ThrownValue v"] by (cases v) simp_all
  have first: "(tasks m ! i = Finished
              \<longrightarrow> invoiceDeployments (run evs' m) ! i = invoiceDeployments m ! i)
         \<and> (\<forall>j api. tasks m ! i = AwaitApi j
              \<longrightarrow> invoiceDeployments (step (ApiSettled i (Inr api)) m) ! i
                    = \<lparr>value = Deployed api, delivered = [Next InProgress, Next (Deployed api)]\<rparr>
                  \<and> tasks (step (ApiSettled i (Inr api)) m) ! i = Finished)
         \<and> (\<forall>j error. tasks m ! i = AwaitApi j
              \<longrightarrow> invoiceDeployments (step (ApiSettled i (Inl error)) m) ! i
                    = \<lparr>value = Failed (toError error),
                       delivered = [Next InProgress, Next (Failed (toError error))]\<rparr>
                  \<and> tasks (step (ApiSettled i (Inl error)) m) ! i = Finished)
         \<and> (\<forall>p j error. tasks m ! i = AwaitProviders p j
              \<longrightarrow> invoiceDeployments (step (ProvidersSettled p (Inl error)) m) ! i
                    = \<lparr>value = Failed (toError error),
                       delivered = [Next InProgress, Next (Failed (toError error))]\<rparr>
                  \<and> tasks (step (ProvidersSettled p (Inl error)) m) ! i = Finished)
         \<and> (\<forall>p j providers. tasks m ! i = AwaitProviders p j
              \<longrightarrow> invoiceDeployments (step (ProvidersSettled p (Inr providers)) m) ! i
                    = invoiceDeployments m ! i
                  \<and> tasks (step (ProvidersSettled p (Inr providers)) m) ! i = AwaitApi j)"
    using b c d e f by blast
  have second: "(\<forall>j e. tasks m ! i = AwaitApi j
              \<longrightarrow> value (invoiceDeployments (step (ApiSettled i (Inl (ThrownError e))) m) ! i)
                    = Failed e)
         \<and> (\<forall>j v. tasks m ! i = AwaitApi j
              \<longrightarrow> value (invoiceDeployments (step (ApiSettled i (Inl (ThrownValue v))) m) ! i)
                    = Failed (Error (case v of JsUndefined \<Rightarrow> ''undefined''
                                      | JsNull \<Rightarrow> ''null''
                                      | JsBoolean b \<Rightarrow> (if b then ''true'' else ''false'')
                                      | JsString s \<Rightarrow> s)))
         \<and> (\<forall>p j e. tasks m ! i = AwaitProviders p j
              \<longrightarrow> value (invoiceDeployments (step (ProvidersSettled p (Inl (ThrownError e))) m) ! i)
                    = Failed e)
         \<and> (\<forall>p j v. tasks m ! i = AwaitProviders p j
              \<longrightarrow> value (invoiceDeployments (step (ProvidersSettled p (Inl (ThrownValue v))) m) ! i)
                    = Failed (Error (case v of JsUndefined \<Rightarrow> ''undefined''
                                      | JsNull \<Rightarrow> ''null''
                                      | JsBoolean b \<Rightarrow> (if b then ''true'' else ''false'')
                                      | JsString s \<Rightarrow> s)))"
    using g h k l by blast
  show ?thesis using a first second by simp
qed

text \<open>
  The theorem at concrete runs. A join whose \<open>InvoiceAPI.join\<close> rejects with
  \<open>new Error("boom")\<close> ends as failed with that error; one that rejects with the string
  \<open>"gone"\<close> ends as failed with \<open>new Error("gone")\<close>; one that rejects with \<open>undefined\<close>
  ends as failed with \<open>new Error("undefined")\<close>; and a join whose provider bundle rejects
  with \<open>new Error("no wallet")\<close> ends as failed with that error.
\<close>

theorem deployment_lifecycle_witness:
  "invoiceDeployments (step (ApiSettled 0 (Inl (ThrownValue JsUndefined)))
      (run [Resolve (Some ''0200a1''), ProvidersSettled 0 (Inr (InvoiceProviders 0))] new_manager)) ! 0
     = \<lparr>value = Failed (Error ''undefined''),
        delivered = [Next InProgress, Next (Failed (Error ''undefined''))]\<rparr>
   \<and> delivered (invoiceDeployments
      (run [Resolve (Some ''0200a1''), ProvidersSettled 0 (Inr (InvoiceProviders 0))] new_manager) ! 0)
     = [Next InProgress]
   \<and> value (invoiceDeployments (step (ApiSettled 0 (Inl (ThrownError (Error ''boom''))))
      (run [Resolve (Some ''0200a1''), ProvidersSettled 0 (Inr (InvoiceProviders 0))] new_manager)) ! 0)
     = Failed (Error ''boom'')
   \<and> value (invoiceDeployments (step (ApiSettled 0 (Inl (ThrownValue (JsString ''gone''))))
      (run [Resolve (Some ''0200a1''), ProvidersSettled 0 (Inr (InvoiceProviders 0))] new_manager)) ! 0)
     = Failed (Error ''gone'')
   \<and> value (invoiceDeployments (step (ProvidersSettled 0 (Inl (ThrownError (Error ''no wallet''))))
      (run [Resolve (Some ''0200a1'')] new_manager)) ! 0)
     = Failed (Error ''no wallet'')"
proof -
  let ?m = "run [Resolve (Some ''0200a1''), ProvidersSettled 0 (Inr (InvoiceProviders 0))] new_manager"
  let ?n = "run [Resolve (Some ''0200a1'')] new_manager"
  have l: "0 < length (invoiceDeployments ?m)" by (simp add: manager_eval)
  have t: "tasks ?m ! 0 = AwaitApi (Join ''0200a1'')" by (simp add: manager_eval)
  have l': "0 < length (invoiceDeployments ?n)" by (simp add: manager_eval)
  have t': "tasks ?n ! 0 = AwaitProviders 0 (Join ''0200a1'')" by (simp add: manager_eval)
  from deployment_lifecycle[OF refl l, of "[]"] t
  have a: "invoiceDeployments (step (ApiSettled 0 (Inl (ThrownValue JsUndefined))) ?m) ! 0
     = \<lparr>value = Failed (Error ''undefined''),
        delivered = [Next InProgress, Next (Failed (Error ''undefined''))]\<rparr>
   \<and> delivered (invoiceDeployments ?m ! 0) = [Next InProgress]
   \<and> value (invoiceDeployments (step (ApiSettled 0 (Inl (ThrownError (Error ''boom'')))) ?m) ! 0)
     = Failed (Error ''boom'')
   \<and> value (invoiceDeployments (step (ApiSettled 0 (Inl (ThrownValue (JsString ''gone'')))) ?m) ! 0)
     = Failed (Error ''gone'')"
    by auto
  from deployment_lifecycle[OF refl l', of "[]"] t'
  have b: "value (invoiceDeployments (step (ProvidersSettled 0 (Inl (ThrownError (Error ''no wallet'')))) ?n) ! 0)
     = Failed (Error ''no wallet'')"
    by blast
  show ?thesis using a b by simp
qed

section \<open>The claims about the provider bundle\<close>

text \<open>
  Claim C3. In every state the manager can reach, at most one \<open>initializeProviders\<close> has
  run and every deployment suspended at \<open>await this.getProviders()\<close> awaits promise 0,
  which is in flight. Any number \<open>n > 0\<close> of callers of \<open>getProviders\<close> all receive
  promise 0, after them exactly one bootstrap has run, and once promise 0 is fulfilled with a
  bundle it stays the cached promise with that bundle, whatever happens later.
\<close>

theorem getProviders_single_bootstrap:
  assumes "m = run evs new_manager"
    and "callGetProviders n m = (ps, m')"
    and "0 < n"
  shows "length (promises m) \<le> 1
         \<and> (\<forall>i p j. i < length (tasks m) \<and> tasks m ! i = AwaitProviders p j
               \<longrightarrow> p = 0 \<and> promises m = [None])
         \<and> ps = replicate n 0
         \<and> length (promises m') = 1
         \<and> initializedProviders m' = Some 0
         \<and> (\<forall>providers. promises m' ! 0 = Some (Inr providers)
               \<longrightarrow> promises (run evs' m') = [Some (Inr providers)]
                   \<and> getProviders (run evs' m') = (0, run evs' m'))"
proof -
  have im: "inv m" using assms(1) inv_run[OF inv_new] by simp
  from callGetProviders_inv[OF im assms(2)]
  have ps: "ps = replicate n 0" and im': "inv m'"
    and pm': "promises m' = (if promises m \<noteq> [] then promises m else [None])"
    using assms(3) by auto
  have a: "length (promises m) \<le> 1" using im by (simp add: inv_def)
  have b: "\<forall>i p j. i < length (tasks m) \<and> tasks m ! i = AwaitProviders p j
               \<longrightarrow> p = 0 \<and> promises m = [None]"
    using im by (auto simp: inv_def list_all_iff awaits_cached_def all_set_conv_all_nth)
  have c: "length (promises m') = 1" using pm' a by (cases "promises m") auto
  have d: "initializedProviders m' = Some 0" using im' c by (auto simp: inv_def)
  have e: "promises (run evs' m') = [Some (Inr providers)] \<and> getProviders (run evs' m') = (0, run evs' m')"
    if "promises m' ! 0 = Some (Inr providers)" for providers
  proof -
    have "promises m' = [Some (Inr providers)]" using that c by (cases "promises m'") auto
    from settled_stable_run[OF im' this, of evs'] inv_run[OF im', of evs']
    show ?thesis by (simp add: getProviders_cached)
  qed
  show ?thesis using a b ps c d e by blast
qed

text \<open>
  The theorem at a concrete run: after one \<open>resolve()\<close>, two further callers receive
  promise 0, still pending; when it is fulfilled with bundle 7, a later \<open>resolve()\<close> finds
  the same bundle cached.
\<close>

theorem getProviders_single_bootstrap_witness:
  "fst (callGetProviders (Suc (Suc 0)) (run [Resolve None] new_manager)) = [0, 0]
   \<and> promises (snd (callGetProviders (Suc (Suc 0)) (run [Resolve None] new_manager))) = [None]
   \<and> promises (run [ProvidersSettled 0 (Inr (InvoiceProviders 7)), Resolve None]
         (snd (callGetProviders (Suc (Suc 0)) (run [Resolve None] new_manager))))
       = [Some (Inr (InvoiceProviders 7))]"
proof -
  let ?m = "run [Resolve None] new_manager"
  let ?c = "callGetProviders (Suc (Suc 0)) ?m"
  let ?m2 = "step (ProvidersSettled 0 (Inr (InvoiceProviders 7))) (snd ?c)"
  have c1: "callGetProviders (Suc (Suc 0)) ?m = (fst ?c, snd ?c)" by simp
  have c2: "callGetProviders (Suc (Suc 0)) (snd ?c) = (fst ?c, snd ?c)"
    by (simp add: manager_eval)
  have p: "promises (snd ?c) = [None]" by (simp add: manager_eval)
  have r: "snd ?c = run [] ?m" by (simp add: manager_eval)
  have m2: "?m2 = run ([Resolve None] @ [ProvidersSettled 0 (Inr (InvoiceProviders 7))]) new_manager"
    by (simp add: manager_eval)
  have p2: "promises ?m2 ! 0 = Some (Inr (InvoiceProviders 7))" by (simp add: manager_eval)
  have c3: "callGetProviders (Suc 0) ?m2 = ([0], ?m2)" by (simp add: manager_eval)
  from getProviders_single_bootstrap[OF refl c1, of "[]"]
  have "fst ?c = replicate (Suc (Suc 0)) 0" by simp
  moreover from getProviders_single_bootstrap[OF m2 c3, of "[Resolve None]"] p2
  have "promises (run [Resolve None] ?m2) = [Some (Inr (InvoiceProviders 7))]" by simp
  ultimately show ?thesis using p by simp
qed

text \<open>
  Claim C8, as amended. When the construction fails, every deployment that awaited it fails
  with the error (normalised), and the rejected promise stays cached: in every later state
  \<open>getProviders\<close> returns that same promise without starting a construction, and every
  deployment that a later \<open>resolve\<close> creates fails at once with the same error.
\<close>

theorem failed_construction_stays_cached:
  assumes "m0 = run evs new_manager"
    and "promises m0 = [None]"
    and "m = step (ProvidersSettled 0 (Inl e)) m0"
  shows "(\<forall>i j. i < length (tasks m0) \<and> tasks m0 ! i = AwaitProviders 0 j
            \<longrightarrow> value (invoiceDeployments m ! i) = Failed (toError e))
         \<and> promises (run evs' m) = [Some (Inl e)]
         \<and> getProviders (run evs' m) = (0, run evs' m)
         \<and> (\<forall>a. fst (resolve a (run evs' m)) = length (invoiceDeployments (run evs' m))
              \<longrightarrow> value (invoiceDeployments (snd (resolve a (run evs' m)))
                     ! length (invoiceDeployments (run evs' m))) = Failed (toError e))"
proof -
  have i0: "inv m0" using assms(1) inv_run[OF inv_new] by simp
  have im: "inv m" unfolding assms(3) by (rule inv_step[OF i0])
  have len: "length (invoiceDeployments m0) = length (tasks m0)"
    using i0 by (auto simp: inv_def dest: list_all2_lengthD)
  have a: "\<forall>i j. i < length (tasks m0) \<and> tasks m0 ! i = AwaitProviders 0 j
            \<longrightarrow> value (invoiceDeployments m ! i) = Failed (toError e)"
    using assms(2,3) len by (auto simp: Let_def next_def)
  have pm: "promises m = [Some (Inl e)]" using assms(2,3) by simp
  let ?m' = "run evs' m"
  have im': "inv ?m'" using im by (rule inv_run)
  have b: "promises ?m' = [Some (Inl e)]" using settled_stable_run[OF im pm] .
  have c: "getProviders ?m' = (0, ?m')" using getProviders_cached[OF im'] b by simp
  have d: "value (invoiceDeployments (snd (resolve a ?m')) ! length (invoiceDeployments ?m'))
             = Failed (toError e)"
    if new: "fst (resolve a ?m') = length (invoiceDeployments ?m')" for a
  proof (cases "find_from (isDeployedAt a) (invoiceDeployments ?m') 0")
    case (Some k)
    from find_from_Some[OF Some] have "k < length (invoiceDeployments ?m')" by simp
    then show ?thesis using new resolve_found[OF Some] by simp
  next
    case None
    from resolve_new[OF None] obtain j where
      r: "resolve a ?m' = (length (invoiceDeployments ?m'),
       (snd (startDeployment j (new_BehaviorSubject InProgress) ?m'))
         \<lparr>invoiceDeployments := invoiceDeployments ?m' @ [fst (fst (startDeployment j (new_BehaviorSubject InProgress) ?m'))],
          tasks := tasks (snd (startDeployment j (new_BehaviorSubject InProgress) ?m')) @ [snd (fst (startDeployment j (new_BehaviorSubject InProgress) ?m'))]\<rparr>)"
      by blast
    have "fst (fst (startDeployment j (new_BehaviorSubject InProgress) ?m'))
            = next (Failed (toError e)) (new_BehaviorSubject InProgress)"
      by (simp add: startDeployment_def c b)
    then show ?thesis by (simp add: r next_def)
  qed
  show ?thesis using a b c d by blast
qed

text \<open>
  The theorem at a concrete run: the construction is rejected with the string
  \<open>no wallet\<close> while one deployment awaits it.
\<close>

theorem failed_construction_stays_cached_witness:
  "value (invoiceDeployments (step (ProvidersSettled 0 (Inl (ThrownValue (JsString ''no wallet''))))
       (run [Resolve None] new_manager)) ! 0) = Failed (Error ''no wallet'')
   \<and> promises (run [Resolve None] (step (ProvidersSettled 0 (Inl (ThrownValue (JsString ''no wallet''))))
       (run [Resolve None] new_manager))) = [Some (Inl (ThrownValue (JsString ''no wallet'')))]"
proof -
  let ?m0 = "run [Resolve None] new_manager"
  have p: "promises ?m0 = [None]" by (simp add: manager_eval)
  have t: "0 < length (tasks ?m0) \<and> tasks ?m0 ! 0 = AwaitProviders 0 Deploy" by (simp add: manager_eval)
  from failed_construction_stays_cached[OF refl p refl, of "ThrownValue (JsString ''no wallet'')" "[Resolve None]"] t
  show ?thesis by auto
qed

text \<open>
  Claim C8 as stated fails: after a failed construction, a later call of \<open>getProviders\<close>
  returns promise 0 again, rejected, and changes nothing; a later \<open>resolve()\<close> starts no
  second construction and its deployment fails with the cached error.
\<close>

theorem failed_construction_no_retry:
  "getProviders (run [Resolve None,
        ProvidersSettled 0 (Inl (ThrownError (Error ''Application is not authorized'')))] new_manager)
     = (0, \<lparr>invoiceDeployments =
            [\<lparr>value = Failed (Error ''Application is not authorized''),
              delivered = [Next InProgress, Next (Failed (Error ''Application is not authorized''))]\<rparr>],
           tasks = [Finished], initializedProviders = Some 0,
           promises = [Some (Inl (ThrownError (Error ''Application is not authorized'')))]\<rparr>)
   \<and> run [Resolve None,
        ProvidersSettled 0 (Inl (ThrownError (Error ''Application is not authorized''))),
        Resolve None] new_manager
     = \<lparr>invoiceDeployments =
            [\<lparr>value = Failed (Error ''Application is not authorized''),
              delivered = [Next InProgress, Next (Failed (Error ''Application is not authorized''))]\<rparr>,
             \<lparr>value = Failed (Error ''Application is not authorized''),
              delivered = [Next InProgress, Next (Failed (Error ''Application is not authorized''))]\<rparr>],
           tasks = [Finished, Finished], initializedProviders = Some 0,
           promises = [Some (Inl (ThrownError (Error ''Application is not authorized'')))]\<rparr>"
  by (simp add: manager_eval)

section \<open>The claim about the wallet bootstrap\<close>

text \<open>
  Claim C6, on the code. When the first connector seen advertises a version that does not
  satisfy the range \<open>1.x\<close>, no method of the connector is called (so \<open>enable()\<close> is
  not), the incompatible-version error is created and logged, and \<open>catchError\<close> replaces
  it: the promise rejects with \<open>Error("Application is not authorized")\<close>, the error
  of a refused authorisation, and not with the incompatible-version error.
\<close>

theorem connectToWallet_incompatible_version:
  assumes "firstConnector polls = Some connectorAPI"
    and "\<not> satisfies (apiVersion connectorAPI) COMPATIBLE_CONNECTOR_API_VERSION"
  shows "connectToWallet satisfies (polls # later)
           = Some (Inl (ThrownError (Error ''Application is not authorized'')), [],
                   [''Incompatible version of wallet connector API'',
                    ''Unable to enable connector API''])"
  using assms by (simp add: upToEnable_def)

text \<open>The theorem for a connector that advertises \<open>2.0.0\<close>, seen at the third poll.\<close>

theorem connectToWallet_incompatible_version_witness:
  "connectToWallet semver_satisfies
     [[None, None,
       Some \<lparr>apiVersion = ''2.0.0'', isEnabled = Responds True,
             enable = Inr (DAppConnectorWalletAPI 0),
             serviceUriConfig = Inr \<lparr>indexerUri = ''http://indexer'', indexerWsUri = ''ws://indexer'',
                                     proverServerUri = ''http://prover''\<rparr>\<rparr>]]
   = Some (Inl (ThrownError (Error ''Application is not authorized'')), [],
           [''Incompatible version of wallet connector API'', ''Unable to enable connector API''])"
proof -
  have v: "\<not> semver_satisfies ''2.0.0'' COMPATIBLE_CONNECTOR_API_VERSION"
    by (simp add: semver_satisfies_def COMPATIBLE_CONNECTOR_API_VERSION_def numeric_identifier_def)
  have f: "firstConnector [None, None,
       Some \<lparr>apiVersion = ''2.0.0'', isEnabled = Responds True,
             enable = Inr (DAppConnectorWalletAPI 0),
             serviceUriConfig = Inr \<lparr>indexerUri = ''http://indexer'', indexerWsUri = ''ws://indexer'',
                                     proverServerUri = ''http://prover''\<rparr>\<rparr>]
     = Some \<lparr>apiVersion = ''2.0.0'', isEnabled = Responds True,
             enable = Inr (DAppConnectorWalletAPI 0),
             serviceUriConfig = Inr \<lparr>indexerUri = ''http://indexer'', indexerWsUri = ''ws://indexer'',
                                     proverServerUri = ''http://prover''\<rparr>\<rparr>"
    by simp
  show ?thesis
    using connectToWallet_incompatible_version[OF f, of semver_satisfies "[]"] v by simp
qed

section \<open>The claims about the adapter\<close>

text \<open>
  Claim C1. Whenever a step of the adapter makes \<open>state$\<close> emit a derived state, the
  private state used is the one the constructor looked up, \<open>buyerKey\<close> has been applied
  to its secret key and to the current ledger sequence in 32 bytes, and \<open>canPay\<close> is true
  exactly when the resulting key equals the \<open>buyerPk\<close> of the current ledger state, as
  byte strings.
\<close>

theorem canPay_iff_recomputed_key:
  assumes "w = api_run ext evs (new_Adapter contractAddress privateStateProvider maybeLogger)"
    and "received (api_step ext ev w) = received w @ [Next d]"
  shows "\<exists>l ps sequenceBytes key.
           latestLedger (api_step ext ev w) = Some l
         \<and> privateStateProvider invoicePrivateStateKey = Some ps
         \<and> InvoiceDerivedState.sequence d = Ledger.sequence l
         \<and> convert_bigint_to_Uint8Array ext 32 (Ledger.sequence l) = Inr sequenceBytes
         \<and> buyerKey ext (secretKey ps) sequenceBytes = Inr key
         \<and> canPay d = (key = buyerPk l)"
proof -
  have inv: "lookup_inv (privateStateProvider invoicePrivateStateKey) w"
    unfolding assms(1) by (intro lookup_inv_run lookup_inv_new)
  from step_Next[OF assms(2)] obtain l p api0 api' where
    l: "latestLedger (api_step ext ev w) = Some l"
    and p: "latestPrivate w = Some p \<or> p = privateStateLookup (this w)"
    and d: "deriveState ext api0 l p = (Inr d, api')" by blast
  have pv: "p = privateStateProvider invoicePrivateStateKey"
    using p inv by (auto simp: lookup_inv_def)
  from deriveState_result[OF d] l pv show ?thesis by auto
qed

text \<open>
  The theorem at a concrete emission: the ledger is at sequence 1 and its \<open>buyerPk\<close> is
  the key of the stored secret.
\<close>

theorem canPay_iff_recomputed_key_witness:
  "\<exists>key. buyerKey example_collaborators (secretKey example_private_state)
            (1 # replicate 31 0) = Inr key
         \<and> canPay \<lparr>InvoiceDerivedState.state = ISSUED, InvoiceDerivedState.sequence = 1,
              InvoiceDerivedState.amount = 100, InvoiceDerivedState.invoiceData = None,
              canPay = True, InvoiceDerivedState.transactionHistory = []\<rparr>
           = (key = buyerPk (example_ledger []))"
proof -
  have l: "latestLedger (api_step example_collaborators (LedgerState (example_ledger []))
      (api_run example_collaborators [PrivateStateResolved] example_adapter)) = Some (example_ledger [])"
    by (rule step_LedgerState_latest[OF example_emission])
  have s: "example_store invoicePrivateStateKey = Some example_private_state"
    by (simp add: example_store_def)
  have c: "convert_bigint_to_Uint8Array example_collaborators 32 (Ledger.sequence (example_ledger []))
             = Inr (1 # replicate 31 0)"
    by code_simp
  have a: "api_run example_collaborators [PrivateStateResolved] example_adapter
             = api_run example_collaborators [PrivateStateResolved]
                 (new_Adapter ''0200a1'' example_store (Some []))"
    by (simp only: example_adapter_def)
  from canPay_iff_recomputed_key[OF a example_emission]
  obtain l' ps sequenceBytes key where
    "latestLedger (api_step example_collaborators (LedgerState (example_ledger []))
      (api_run example_collaborators [PrivateStateResolved] example_adapter)) = Some l'"
    "example_store invoicePrivateStateKey = Some ps"
    "convert_bigint_to_Uint8Array example_collaborators 32 (Ledger.sequence l') = Inr sequenceBytes"
    "buyerKey example_collaborators (secretKey ps) sequenceBytes = Inr key"
    "canPay \<lparr>InvoiceDerivedState.state = ISSUED, InvoiceDerivedState.sequence = 1,
              InvoiceDerivedState.amount = 100, InvoiceDerivedState.invoiceData = None,
              canPay = True, InvoiceDerivedState.transactionHistory = []\<rparr>
       = (key = buyerPk l')"
    by blast
  then show ?thesis using l s c by auto
qed

text \<open>
  Claim C10. \<open>state$\<close> emits nothing as long as the ledger observable has not emitted
  or the promise of the private state lookup has not delivered. The emissions are the same
  when the events that store another private state are left out of the run, and the private
  state that \<open>combineLatest\<close> holds is never another than the one looked up in the
  constructor.
\<close>

theorem state_stream_waits_for_both_sources:
  assumes "w0 = new_Adapter contractAddress privateStateProvider maybeLogger"
  shows "((\<forall>e \<in> set evs. \<not> is_LedgerState e) \<or> PrivateStateResolved \<notin> set evs
            \<longrightarrow> received (api_run ext evs w0) = [])
         \<and> received (api_run ext (filter (\<lambda>e. \<not> is_PrivateStateSet e) evs) w0)
             = received (api_run ext evs w0)
         \<and> (latestPrivate (api_run ext evs w0) = None
            \<or> latestPrivate (api_run ext evs w0) = Some (privateStateProvider invoicePrivateStateKey))"
proof -
  have inv: "lookup_inv (privateStateProvider invoicePrivateStateKey) (api_run ext evs w0)"
    unfolding assms by (intro lookup_inv_run lookup_inv_new)
  have n: "latestLedger w0 = None" "latestPrivate w0 = None"
    by (simp_all add: assms new_Adapter_def)
  have a: "received (api_run ext evs w0) = []"
    if "(\<forall>e \<in> set evs. \<not> is_LedgerState e) \<or> PrivateStateResolved \<notin> set evs"
  proof -
    have "latestLedger (api_run ext evs w0) = None \<or> latestPrivate (api_run ext evs w0) = None"
      using that n run_latestLedger[of evs ext w0] run_latestPrivate[of evs ext w0] by auto
    then show ?thesis using inv by (auto simp: lookup_inv_def)
  qed
  have "same_but_store w0 w0" by (simp add: same_but_store_def)
  from run_same[OF this, of ext evs] have b: "received (api_run ext (filter (\<lambda>e. \<not> is_PrivateStateSet e) evs) w0)
             = received (api_run ext evs w0)" by (simp add: same_but_store_def)
  have c: "latestPrivate (api_run ext evs w0) = None
            \<or> latestPrivate (api_run ext evs w0) = Some (privateStateProvider invoicePrivateStateKey)"
    using inv by (simp add: lookup_inv_def)
  show ?thesis using a b c by blast
qed

text \<open>
  The theorem at a concrete run: nothing is emitted before the lookup has resolved, and a
  private state stored in between changes no emission.
\<close>

theorem state_stream_waits_for_both_sources_witness:
  "received (api_run example_collaborators [LedgerState (example_ledger [])] example_adapter) = []
   \<and> received (api_run example_collaborators
       [LedgerState (example_ledger []), PrivateStateSet \<lparr>secretKey = replicate 32 0\<rparr>,
        PrivateStateResolved] example_adapter)
     = received (api_run example_collaborators
       [LedgerState (example_ledger []), PrivateStateResolved] example_adapter)"
proof -
  have "PrivateStateResolved \<notin> set [LedgerState (example_ledger [])]" by simp
  then have "received (api_run example_collaborators [LedgerState (example_ledger [])] example_adapter) = []"
    using state_stream_waits_for_both_sources[OF example_adapter_def,
        of "[LedgerState (example_ledger [])]" example_collaborators] by blast
  moreover have "received (api_run example_collaborators
       (filter (\<lambda>e. \<not> is_PrivateStateSet e)
          [LedgerState (example_ledger []), PrivateStateSet \<lparr>secretKey = replicate 32 0\<rparr>,
           PrivateStateResolved]) example_adapter)
     = received (api_run example_collaborators
       [LedgerState (example_ledger []), PrivateStateSet \<lparr>secretKey = replicate 32 0\<rparr>,
        PrivateStateResolved] example_adapter)"
    using state_stream_waits_for_both_sources[OF example_adapter_def] by blast
  ultimately show ?thesis by simp
qed

text \<open>
  Claim C5. Each operation appends one entry of its type, with the hash and the block
  height of the finalised transaction, exactly when \<open>callTx\<close> resolves, and returns the
  hash; when \<open>callTx\<close> rejects, the error is rethrown as it is and the history is
  unchanged. Issuing, paying and resetting in this order appends the three entries in this
  order, and whatever happens to the adapter only appends to the history.
\<close>

theorem transaction_history_append_only:
  "(\<forall>tx. callTx a (JSON_stringify (InvoiceData_object d)) = Inr tx \<longrightarrow>
       fst (issueInvoice api a d callTx now) = Inr (FinalizedTxData.txHash tx)
     \<and> InvoiceAPI.transactionHistory (snd (issueInvoice api a d callTx now))
         = InvoiceAPI.transactionHistory api @
           [\<lparr>type = Issue, TransactionHistoryEntry.txHash = FinalizedTxData.txHash tx,
             TransactionHistoryEntry.blockHeight = FinalizedTxData.blockHeight tx,
             timestamp = now, TransactionHistoryEntry.amount = Some a,
             TransactionHistoryEntry.invoiceData = Some d\<rparr>])
   \<and> (\<forall>error. callTx a (JSON_stringify (InvoiceData_object d)) = Inl error \<longrightarrow>
       fst (issueInvoice api a d callTx now) = Inl error
     \<and> InvoiceAPI.transactionHistory (snd (issueInvoice api a d callTx now))
         = InvoiceAPI.transactionHistory api)
   \<and> fst (payInvoice api (Inr tx2) now) = Inr (FinalizedTxData.txHash tx2)
   \<and> InvoiceAPI.transactionHistory (snd (payInvoice api (Inr tx2) now))
       = InvoiceAPI.transactionHistory api @
         [\<lparr>type = Payment, TransactionHistoryEntry.txHash = FinalizedTxData.txHash tx2,
           TransactionHistoryEntry.blockHeight = FinalizedTxData.blockHeight tx2,
           timestamp = now, TransactionHistoryEntry.amount = None,
           TransactionHistoryEntry.invoiceData = None\<rparr>]
   \<and> fst (payInvoice api (Inl error2) now) = Inl error2
   \<and> InvoiceAPI.transactionHistory (snd (payInvoice api (Inl error2) now))
       = InvoiceAPI.transactionHistory api
   \<and> fst (resetInvoice api (Inr tx3) now) = Inr (FinalizedTxData.txHash tx3)
   \<and> InvoiceAPI.transactionHistory (snd (resetInvoice api (Inr tx3) now))
       = InvoiceAPI.transactionHistory api @
         [\<lparr>type = Reset, TransactionHistoryEntry.txHash = FinalizedTxData.txHash tx3,
           TransactionHistoryEntry.blockHeight = FinalizedTxData.blockHeight tx3,
           timestamp = now, TransactionHistoryEntry.amount = None,
           TransactionHistoryEntry.invoiceData = None\<rparr>]
   \<and> fst (resetInvoice api (Inl error3) now) = Inl error3
   \<and> InvoiceAPI.transactionHistory (snd (resetInvoice api (Inl error3) now))
       = InvoiceAPI.transactionHistory api
   \<and> InvoiceAPI.transactionHistory (this (api_run ext
         [IssueInvoice a d (Inr tx) t1, PayInvoice (Inr tx2) t2, ResetInvoice (Inr tx3) t3] w))
       = InvoiceAPI.transactionHistory (this w) @
         [\<lparr>type = Issue, TransactionHistoryEntry.txHash = FinalizedTxData.txHash tx,
           TransactionHistoryEntry.blockHeight = FinalizedTxData.blockHeight tx,
           timestamp = t1, TransactionHistoryEntry.amount = Some a,
           TransactionHistoryEntry.invoiceData = Some d\<rparr>,
          \<lparr>type = Payment, TransactionHistoryEntry.txHash = FinalizedTxData.txHash tx2,
           TransactionHistoryEntry.blockHeight = FinalizedTxData.blockHeight tx2,
           timestamp = t2, TransactionHistoryEntry.amount = None,
           TransactionHistoryEntry.invoiceData = None\<rparr>,
          \<lparr>type = Reset, TransactionHistoryEntry.txHash = FinalizedTxData.txHash tx3,
           TransactionHistoryEntry.blockHeight = FinalizedTxData.blockHeight tx3,
           timestamp = t3, TransactionHistoryEntry.amount = None,
           TransactionHistoryEntry.invoiceData = None\<rparr>]
   \<and> (\<exists>suffix. InvoiceAPI.transactionHistory (this (api_run ext evs w))
         = InvoiceAPI.transactionHistory (this w) @ suffix)"
proof -
  have i: "\<forall>tx. callTx a (JSON_stringify (InvoiceData_object d)) = Inr tx \<longrightarrow>
       fst (issueInvoice api a d callTx now) = Inr (FinalizedTxData.txHash tx)
     \<and> InvoiceAPI.transactionHistory (snd (issueInvoice api a d callTx now))
         = InvoiceAPI.transactionHistory api @
           [\<lparr>type = Issue, TransactionHistoryEntry.txHash = FinalizedTxData.txHash tx,
             TransactionHistoryEntry.blockHeight = FinalizedTxData.blockHeight tx,
             timestamp = now, TransactionHistoryEntry.amount = Some a,
             TransactionHistoryEntry.invoiceData = Some d\<rparr>]"
    by (simp add: issueInvoice_def Let_def)
  have ie: "\<forall>error. callTx a (JSON_stringify (InvoiceData_object d)) = Inl error \<longrightarrow>
       fst (issueInvoice api a d callTx now) = Inl error
     \<and> InvoiceAPI.transactionHistory (snd (issueInvoice api a d callTx now))
         = InvoiceAPI.transactionHistory api"
    by (simp add: issueInvoice_def Let_def)
  have p: "fst (payInvoice api (Inr tx2) now) = Inr (FinalizedTxData.txHash tx2)
   \<and> InvoiceAPI.transactionHistory (snd (payInvoice api (Inr tx2) now))
       = InvoiceAPI.transactionHistory api @
         [\<lparr>type = Payment, TransactionHistoryEntry.txHash = FinalizedTxData.txHash tx2,
           TransactionHistoryEntry.blockHeight = FinalizedTxData.blockHeight tx2,
           timestamp = now, TransactionHistoryEntry.amount = None,
           TransactionHistoryEntry.invoiceData = None\<rparr>]
   \<and> fst (payInvoice api (Inl error2) now) = Inl error2
   \<and> InvoiceAPI.transactionHistory (snd (payInvoice api (Inl error2) now))
       = InvoiceAPI.transactionHistory api"
    by (simp add: payInvoice_def Let_def)
  have r: "fst (resetInvoice api (Inr tx3) now) = Inr (FinalizedTxData.txHash tx3)
   \<and> InvoiceAPI.transactionHistory (snd (resetInvoice api (Inr tx3) now))
       = InvoiceAPI.transactionHistory api @
         [\<lparr>type = Reset, TransactionHistoryEntry.txHash = FinalizedTxData.txHash tx3,
           TransactionHistoryEntry.blockHeight = FinalizedTxData.blockHeight tx3,
           timestamp = now, TransactionHistoryEntry.amount = None,
           TransactionHistoryEntry.invoiceData = None\<rparr>]
   \<and> fst (resetInvoice api (Inl error3) now) = Inl error3
   \<and> InvoiceAPI.transactionHistory (snd (resetInvoice api (Inl error3) now))
       = InvoiceAPI.transactionHistory api"
    by (simp add: resetInvoice_def Let_def)
  have s: "InvoiceAPI.transactionHistory (this (api_run ext
         [IssueInvoice a d (Inr tx) t1, PayInvoice (Inr tx2) t2, ResetInvoice (Inr tx3) t3] w))
       = InvoiceAPI.transactionHistory (this w) @
         [\<lparr>type = Issue, TransactionHistoryEntry.txHash = FinalizedTxData.txHash tx,
           TransactionHistoryEntry.blockHeight = FinalizedTxData.blockHeight tx,
           timestamp = t1, TransactionHistoryEntry.amount = Some a,
           TransactionHistoryEntry.invoiceData = Some d\<rparr>,
          \<lparr>type = Payment, TransactionHistoryEntry.txHash = FinalizedTxData.txHash tx2,
           TransactionHistoryEntry.blockHeight = FinalizedTxData.blockHeight tx2,
           timestamp = t2, TransactionHistoryEntry.amount = None,
           TransactionHistoryEntry.invoiceData = None\<rparr>,
          \<lparr>type = Reset, TransactionHistoryEntry.txHash = FinalizedTxData.txHash tx3,
           TransactionHistoryEntry.blockHeight = FinalizedTxData.blockHeight tx3,
           timestamp = t3, TransactionHistoryEntry.amount = None,
           TransactionHistoryEntry.invoiceData = None\<rparr>]"
    by (simp add: issueInvoice_def payInvoice_def resetInvoice_def Let_def)
  show ?thesis
    using i ie p r s history_run[of ext evs w] by blast
qed

text \<open>
  The theorem at a concrete call: an issue that is finalised appends its entry to the empty
  history, one that is rejected leaves the history empty.
\<close>

theorem transaction_history_append_only_witness:
  "InvoiceAPI.transactionHistory
     (snd (issueInvoice (new_InvoiceAPI ''0200a1'' example_store None) 100 example_invoice
        (\<lambda>a j. Inr \<lparr>FinalizedTxData.txHash = ''ab12'', FinalizedTxData.blockHeight = 7\<rparr>) 1735689600000))
   = [\<lparr>type = Issue, TransactionHistoryEntry.txHash = ''ab12'',
       TransactionHistoryEntry.blockHeight = 7, timestamp = 1735689600000,
       TransactionHistoryEntry.amount = Some 100,
       TransactionHistoryEntry.invoiceData = Some example_invoice\<rparr>]
   \<and> InvoiceAPI.transactionHistory
     (snd (issueInvoice (new_InvoiceAPI ''0200a1'' example_store None) 100 example_invoice
        (\<lambda>a j. Inl (ThrownError (Error ''rejected''))) 1735689600000))
   = []"
  using transaction_history_append_only[of
      "\<lambda>a j. Inr \<lparr>FinalizedTxData.txHash = ''ab12'', FinalizedTxData.blockHeight = 7\<rparr>"
      100 example_invoice "new_InvoiceAPI ''0200a1'' example_store None" 1735689600000]
    transaction_history_append_only[of
      "\<lambda>a j. Inl (ThrownError (Error ''rejected''))"
      100 example_invoice "new_InvoiceAPI ''0200a1'' example_store None" 1735689600000]
  by (simp add: new_InvoiceAPI_def)

text \<open>
  Claim C7, as amended. In a derived state, \<open>invoiceData\<close> is undefined exactly when
  \<open>invoiceJson\<close> is empty or is not JSON text (\<open>JSON.parse\<close> throws); text that parses is
  passed on as parsed. A parse failure is passed to the logger when the adapter has one, and
  changes nothing else. Whether the projection throws does not depend on \<open>invoiceJson\<close>:
  a ledger state whose projection does not end the stream does not end it with any other
  \<open>invoiceJson\<close> either, and the subscriber receives the derived state.
\<close>

theorem invoiceData_undefined_without_JSON:
  assumes "deriveState ext api l p = (Inr derived, api')"
  shows "(InvoiceDerivedState.invoiceData derived = None
            \<longleftrightarrow> Maybe_string.value (invoiceJson l) = []
                \<or> isl (JSON_parse (Maybe_string.value (invoiceJson l))))
         \<and> (\<forall>v. Maybe_string.value (invoiceJson l) \<noteq> []
                \<and> JSON_parse (Maybe_string.value (invoiceJson l)) = Inr v
              \<longrightarrow> InvoiceDerivedState.invoiceData derived = Some v \<and> api' = api)
         \<and> (\<forall>e. Maybe_string.value (invoiceJson l) \<noteq> []
                \<and> JSON_parse (Maybe_string.value (invoiceJson l)) = Inl e
              \<longrightarrow> api' = api\<lparr>logger := log (ErrorLog ''Failed to parse invoice JSON'' e) (logger api)\<rparr>
                  \<and> (\<forall>entries. logger api = Some entries
                        \<longrightarrow> logger api' = Some (entries @ [ErrorLog ''Failed to parse invoice JSON'' e]))
                  \<and> (logger api = None \<longrightarrow> logger api' = None))
         \<and> (\<forall>source. isl (fst (deriveState ext api
                 (l\<lparr>invoiceJson := \<lparr>is_some = True, Maybe_string.value = source\<rparr>\<rparr>) p))
               = isl (fst (deriveState ext api l p)))
         \<and> (\<forall>source w. \<not> closed w \<and> latestPrivate w = Some p
               \<and> \<not> closed (api_step ext (LedgerState l) w)
              \<longrightarrow> \<not> closed (api_step ext
                      (LedgerState (l\<lparr>invoiceJson := \<lparr>is_some = True, Maybe_string.value = source\<rparr>\<rparr>)) w)
                  \<and> length (received (api_step ext
                      (LedgerState (l\<lparr>invoiceJson := \<lparr>is_some = True, Maybe_string.value = source\<rparr>\<rparr>)) w))
                    = Suc (length (received w)))"
proof -
  note r = deriveState_result[OF assms]
  have a: "InvoiceDerivedState.invoiceData derived = None
            \<longleftrightarrow> Maybe_string.value (invoiceJson l) = []
                \<or> isl (JSON_parse (Maybe_string.value (invoiceJson l)))"
    using r by (auto split: sum.splits if_splits)
  have b: "\<forall>v. Maybe_string.value (invoiceJson l) \<noteq> []
                \<and> JSON_parse (Maybe_string.value (invoiceJson l)) = Inr v
              \<longrightarrow> InvoiceDerivedState.invoiceData derived = Some v \<and> api' = api"
    using r by auto
  have c: "\<forall>e. Maybe_string.value (invoiceJson l) \<noteq> []
                \<and> JSON_parse (Maybe_string.value (invoiceJson l)) = Inl e
              \<longrightarrow> api' = api\<lparr>logger := log (ErrorLog ''Failed to parse invoice JSON'' e) (logger api)\<rparr>
                  \<and> (\<forall>entries. logger api = Some entries
                        \<longrightarrow> logger api' = Some (entries @ [ErrorLog ''Failed to parse invoice JSON'' e]))
                  \<and> (logger api = None \<longrightarrow> logger api' = None)"
    using r by (auto simp: log_def)
  have d: "\<forall>source. isl (fst (deriveState ext api
                 (l\<lparr>invoiceJson := \<lparr>is_some = True, Maybe_string.value = source\<rparr>\<rparr>) p))
               = isl (fst (deriveState ext api l p))"
    by (simp add: deriveState_no_throw_from_parse split: option.splits)
  have e: "\<not> closed (api_step ext
                      (LedgerState (l\<lparr>invoiceJson := \<lparr>is_some = True, Maybe_string.value = source\<rparr>\<rparr>)) w)
                  \<and> length (received (api_step ext
                      (LedgerState (l\<lparr>invoiceJson := \<lparr>is_some = True, Maybe_string.value = source\<rparr>\<rparr>)) w))
                    = Suc (length (received w))"
    if "\<not> closed w" "latestPrivate w = Some p" "\<not> closed (api_step ext (LedgerState l) w)"
    for source w
  proof -
    let ?api = "(this w)\<lparr>logger := log (Trace ''ledgerStateChanged'') (logger (this w))\<rparr>"
    let ?l = "l\<lparr>invoiceJson := \<lparr>is_some = True, Maybe_string.value = source\<rparr>\<rparr>"
    have "\<not> isl (fst (deriveState ext ?api l p))"
      using that by (auto simp: emit_def split: sum.splits prod.splits)
    then have "\<not> isl (fst (deriveState ext ?api ?l p))"
      by (simp add: deriveState_no_throw_from_parse split: option.splits)
    then show ?thesis
      using that(1,2) by (auto simp: emit_def split: sum.splits prod.splits)
  qed
  show ?thesis using a b c d e by blast
qed

text \<open>The theorem for the truncated text \<open>{\<close>.\<close>

theorem invoiceData_undefined_without_JSON_witness:
  "deriveState example_collaborators (new_InvoiceAPI ''0200a1'' example_store (Some []))
     (example_ledger (js ''{'')) (Some example_private_state)
   = (Inr \<lparr>InvoiceDerivedState.state = ISSUED, InvoiceDerivedState.sequence = 1,
        InvoiceDerivedState.amount = 100, InvoiceDerivedState.invoiceData = None,
        canPay = True, InvoiceDerivedState.transactionHistory = []\<rparr>,
      \<lparr>InvoiceAPI.deployedContractAddress = ''0200a1'', InvoiceAPI.transactionHistory = [],
        logger = Some [ErrorLog ''Failed to parse invoice JSON'' SyntaxError],
        privateStateLookup = Some example_private_state\<rparr>)
   \<and> (Maybe_string.value (invoiceJson (example_ledger (js ''{''))) = []
      \<or> isl (JSON_parse (Maybe_string.value (invoiceJson (example_ledger (js ''{''))))))"
proof -
  from invoiceData_undefined_without_JSON[OF example_truncated_JSON]
  have "InvoiceDerivedState.invoiceData
          \<lparr>InvoiceDerivedState.state = ISSUED, InvoiceDerivedState.sequence = 1,
           InvoiceDerivedState.amount = 100, InvoiceDerivedState.invoiceData = None,
           canPay = True, InvoiceDerivedState.transactionHistory = []\<rparr> = None
        \<longleftrightarrow> Maybe_string.value (invoiceJson (example_ledger (js ''{''))) = []
          \<or> isl (JSON_parse (Maybe_string.value (invoiceJson (example_ledger (js ''{'')))))"
    by (rule conjunct1)
  then have "Maybe_string.value (invoiceJson (example_ledger (js ''{''))) = []
      \<or> isl (JSON_parse (Maybe_string.value (invoiceJson (example_ledger (js ''{'')))))"
    by simp
  then show ?thesis using example_truncated_JSON by blast
qed

text \<open>
  Claim C7 as stated fails. The text \<open>{}\<close> parses, so \<open>invoiceData\<close> is the empty
  object, which has none of the properties of an invoice, and not undefined. And an adapter
  that was created without a logger logs nothing when the text is truncated.
\<close>

theorem invoiceData_unchecked_shape:
  "\<not> is_InvoiceData (JObject [])
   \<and> deriveState example_collaborators (new_InvoiceAPI ''0200a1'' example_store (Some []))
       (example_ledger (js ''{}'')) (Some example_private_state)
     = (Inr \<lparr>InvoiceDerivedState.state = ISSUED, InvoiceDerivedState.sequence = 1,
          InvoiceDerivedState.amount = 100, InvoiceDerivedState.invoiceData = Some (JObject []),
          canPay = True, InvoiceDerivedState.transactionHistory = []\<rparr>,
        new_InvoiceAPI ''0200a1'' example_store (Some []))
   \<and> deriveState example_collaborators (new_InvoiceAPI ''0200a1'' example_store None)
       (example_ledger (js ''{'')) (Some example_private_state)
     = (Inr \<lparr>InvoiceDerivedState.state = ISSUED, InvoiceDerivedState.sequence = 1,
          InvoiceDerivedState.amount = 100, InvoiceDerivedState.invoiceData = None,
          canPay = True, InvoiceDerivedState.transactionHistory = []\<rparr>,
        new_InvoiceAPI ''0200a1'' example_store None)"
  by code_simp

text \<open>
  Claim C9. \<open>issueInvoice\<close> sends the amount and the text \<open>JSON.stringify(invoiceData)\<close>
  to \<open>callTx\<close>, and nothing else decides its outcome: it returns the transaction hash when
  that call fulfils and rejects with the same error when that call rejects. So a contract
  that accepts this amount and this text only makes \<open>issueInvoice\<close> succeed, and one that
  rejects them only makes it fail. When \<open>issueInvoice\<close> has succeeded against a contract
  that accepts one text only, and the ledger observable later emits a ledger state whose
  \<open>invoiceJson\<close> is that text, then every derived state that \<open>state$\<close> emits for it has as
  \<open>invoiceData\<close> the object of the invoice data that was issued; likewise whenever the
  ledger text is \<open>JSON.stringify(invoiceData)\<close>.
\<close>

theorem issue_then_observe_roundtrip:
  "fst (issueInvoice api a d callTx now)
     = (case callTx a (JSON_stringify (InvoiceData_object d)) of
          Inl error \<Rightarrow> Inl error
        | Inr finalizedTx \<Rightarrow> Inr (FinalizedTxData.txHash finalizedTx))
   \<and> fst (issueInvoice api a d
        (\<lambda>a' j. if a' = a \<and> j = JSON_stringify (InvoiceData_object d) then Inr tx else Inl rejection)
        now)
     = Inr (FinalizedTxData.txHash tx)
   \<and> fst (issueInvoice api a d
        (\<lambda>a' j. if a' = a \<and> j = JSON_stringify (InvoiceData_object d) then Inl rejection else Inr tx)
        now)
     = Inl rejection
   \<and> ((\<forall>a' j. a' \<noteq> a \<or> j \<noteq> sent \<longrightarrow> isl (callTx a' j))
        \<and> fst (issueInvoice api a d callTx now) = Inr h
        \<and> Maybe_string.value (invoiceJson l') = sent
        \<and> received (api_step ext (LedgerState l') w') = received w' @ [Next derived']
      \<longrightarrow> InvoiceDerivedState.invoiceData derived' = Some (InvoiceData_object d))
   \<and> issueInvoice api a d callTx now
     = issueInvoice api a d (\<lambda>a' j. callTx a (JSON_stringify (InvoiceData_object d))) now
   \<and> (Maybe_string.value (invoiceJson l) = JSON_stringify (InvoiceData_object d)
        \<and> received (api_step ext (LedgerState l) w) = received w @ [Next derived]
      \<longrightarrow> InvoiceDerivedState.invoiceData derived = Some (InvoiceData_object d))"
proof -
  have s: "fst (issueInvoice api a d f now)
     = (case f a (JSON_stringify (InvoiceData_object d)) of
          Inl error \<Rightarrow> Inl error
        | Inr finalizedTx \<Rightarrow> Inr (FinalizedTxData.txHash finalizedTx))" for f
    by (simp add: issueInvoice_def Let_def split: sum.splits)
  have s1: "fst (issueInvoice api a d
        (\<lambda>a' j. if a' = a \<and> j = JSON_stringify (InvoiceData_object d) then Inr tx else Inl rejection)
        now)
     = Inr (FinalizedTxData.txHash tx)"
    unfolding s by simp
  have s2: "fst (issueInvoice api a d
        (\<lambda>a' j. if a' = a \<and> j = JSON_stringify (InvoiceData_object d) then Inl rejection else Inr tx)
        now)
     = Inl rejection"
    unfolding s by simp
  have a: "issueInvoice api a d callTx now
     = issueInvoice api a d (\<lambda>a' j. callTx a (JSON_stringify (InvoiceData_object d))) now"
    by (simp add: issueInvoice_def)
  have b: "InvoiceDerivedState.invoiceData x = Some (InvoiceData_object d)"
    if v: "Maybe_string.value (invoiceJson y) = JSON_stringify (InvoiceData_object d)"
      and r: "received (api_step ext (LedgerState y) z) = received z @ [Next x]"
    for x y z
  proof -
    from step_Next[OF r] step_LedgerState_latest[OF r] obtain p api0 api' where
      "deriveState ext api0 y p = (Inr x, api')" by auto
    from deriveState_result[OF this] show ?thesis
      by (auto simp: v JSON_stringify_InvoiceData_nonempty JSON_roundtrip_InvoiceData)
  qed
  have c: "InvoiceDerivedState.invoiceData derived' = Some (InvoiceData_object d)"
    if o: "\<forall>a' j. a' \<noteq> a \<or> j \<noteq> sent \<longrightarrow> isl (callTx a' j)"
      and i: "fst (issueInvoice api a d callTx now) = Inr h"
      and v: "Maybe_string.value (invoiceJson l') = sent"
      and r: "received (api_step ext (LedgerState l') w') = received w' @ [Next derived']"
  proof -
    from i have "\<not> isl (callTx a (JSON_stringify (InvoiceData_object d)))"
      unfolding s by (cases "callTx a (JSON_stringify (InvoiceData_object d))") simp_all
    with o have "JSON_stringify (InvoiceData_object d) = sent" by blast
    with v have "Maybe_string.value (invoiceJson l') = JSON_stringify (InvoiceData_object d)"
      by simp
    from b[OF this r] show ?thesis .
  qed
  have c': "(\<forall>a' j. a' \<noteq> a \<or> j \<noteq> sent \<longrightarrow> isl (callTx a' j))
        \<and> fst (issueInvoice api a d callTx now) = Inr h
        \<and> Maybe_string.value (invoiceJson l') = sent
        \<and> received (api_step ext (LedgerState l') w') = received w' @ [Next derived']
      \<longrightarrow> InvoiceDerivedState.invoiceData derived' = Some (InvoiceData_object d)"
    using c by blast
  have b': "Maybe_string.value (invoiceJson l) = JSON_stringify (InvoiceData_object d)
        \<and> received (api_step ext (LedgerState l) w) = received w @ [Next derived]
      \<longrightarrow> InvoiceDerivedState.invoiceData derived = Some (InvoiceData_object d)"
    using b by blast
  show ?thesis
    apply (rule conjI[OF s])
    apply (rule conjI[OF s1])
    apply (rule conjI[OF s2])
    apply (rule conjI[OF c'])
    apply (rule conjI[OF a])
    apply (rule b')
    done
qed

text \<open>
  The theorem for the invoice with title T, description D, date 2025-01-01 and currency NIGHT,
  the amount 100, and a contract that accepts this amount with the text of this invoice only
  and answers with the transaction hash ab12: \<open>issueInvoice\<close> returns ab12, and the ledger
  state with that text is observed with the invoice data that was issued.
\<close>

theorem issue_then_observe_roundtrip_witness:
  "fst (issueInvoice (new_InvoiceAPI ''0200a1'' example_store (Some [])) 100 example_invoice
        (\<lambda>a' j. if a' = 100 \<and> j = JSON_stringify (InvoiceData_object example_invoice)
                 then Inr \<lparr>FinalizedTxData.txHash = ''ab12'', blockHeight = 7\<rparr>
                 else Inl (ThrownValue JsUndefined))
        0)
     = Inr ''ab12''
   \<and> InvoiceDerivedState.invoiceData
     \<lparr>InvoiceDerivedState.state = ISSUED, InvoiceDerivedState.sequence = 1,
        InvoiceDerivedState.amount = 100,
        InvoiceDerivedState.invoiceData =
          Some (JObject [(js ''title'', JString (js ''T'')), (js ''description'', JString (js ''D'')),
                         (js ''issuedAt'', JString (js ''2025-01-01'')),
                         (js ''currency'', JString (js ''NIGHT''))]),
        canPay = True, InvoiceDerivedState.transactionHistory = []\<rparr>
   = Some (InvoiceData_object example_invoice)
   \<and> Maybe_string.value (invoiceJson (example_ledger (JSON_stringify (InvoiceData_object example_invoice))))
     = JSON_stringify (InvoiceData_object example_invoice)"
proof -
  let ?sent = "JSON_stringify (InvoiceData_object example_invoice)"
  let ?tx = "\<lparr>FinalizedTxData.txHash = ''ab12'', blockHeight = 7\<rparr>"
  let ?callTx = "\<lambda>a' j. if a' = (100::int) \<and> j = ?sent then Inr ?tx else Inl (ThrownValue JsUndefined)"
  let ?api = "new_InvoiceAPI ''0200a1'' example_store (Some [])"
  let ?w = "api_run example_collaborators [PrivateStateResolved] example_adapter"
  note t = issue_then_observe_roundtrip[where api = ?api and a = 100 and d = example_invoice
      and callTx = ?callTx and now = 0 and tx = ?tx and rejection = "ThrownValue JsUndefined"
      and sent = ?sent and h = "''ab12''" and l' = "example_ledger ?sent"
      and ext = example_collaborators and w' = ?w]
  have i: "fst (issueInvoice ?api 100 example_invoice ?callTx 0) = Inr ''ab12''"
    using t[THEN conjunct2, THEN conjunct1] by simp
  have o: "\<forall>a' j. a' \<noteq> (100::int) \<or> j \<noteq> ?sent \<longrightarrow> isl (?callTx a' j)"
    by auto
  have v: "Maybe_string.value (invoiceJson (example_ledger ?sent)) = ?sent"
    by (simp add: example_ledger_def)
  from t[THEN conjunct2, THEN conjunct2, THEN conjunct2, THEN conjunct1] o i v example_roundtrip_run
  have "InvoiceDerivedState.invoiceData
     \<lparr>InvoiceDerivedState.state = ISSUED, InvoiceDerivedState.sequence = 1,
        InvoiceDerivedState.amount = 100,
        InvoiceDerivedState.invoiceData =
          Some (JObject [(js ''title'', JString (js ''T'')), (js ''description'', JString (js ''D'')),
                         (js ''issuedAt'', JString (js ''2025-01-01'')),
                         (js ''currency'', JString (js ''NIGHT''))]),
        canPay = True, InvoiceDerivedState.transactionHistory = []\<rparr>
   = Some (InvoiceData_object example_invoice)"
    by blast
  with i v show ?thesis by blast
qed

end
